theory Spec2Isabelle
  imports Complex_Main "HOL-Library.Log_Nat" "HOL-Library.Sublist" "HOL-Library.Word"
begin

section \<open>Python values\<close>

text \<open>
  The repository holds two scripts, \<^verbatim>\<open>qimi2_sim.py\<close> (a fast burst) and
  \<^verbatim>\<open>stress.py\<close> (a slow ramp).  Python integers are unbounded, hence \<open>int\<close>; floats are
  binary64 values.  The exceptions that the functions below can raise:
\<close>

datatype py_exn = ValueError | OverflowError | OSError

section \<open>Size strings: \<^verbatim>\<open>parse_size\<close>\<close>

text \<open>
  \<^verbatim>\<open>parse_size\<close> is the same function in both scripts.  A Python string is modelled as a
  list of characters, for strings of ASCII characters.  The conversions \<^verbatim>\<open>float(...)\<close> and
  \<^verbatim>\<open>int(...)\<close> are Python's own; their grammar and their values are written out below.
\<close>

subsection \<open>\<^verbatim>\<open>str.strip\<close>, \<^verbatim>\<open>str.lower\<close>, \<^verbatim>\<open>str.endswith\<close>\<close>

definition is_space :: "char \<Rightarrow> bool" where
  "is_space ch = (let n = (of_char ch :: nat) in (9 \<le> n \<and> n \<le> 13) \<or> (28 \<le> n \<and> n \<le> 32))"

definition strip :: "string \<Rightarrow> string" where
  "strip s = rev (dropWhile is_space (rev (dropWhile is_space s)))"

definition lower_char :: "char \<Rightarrow> char" where
  "lower_char ch = (let n = (of_char ch :: nat) in if 65 \<le> n \<and> n \<le> 90 then char_of (n + 32) else ch)"

definition lower :: "string \<Rightarrow> string" where
  "lower s = map lower_char s"

definition endswith :: "string \<Rightarrow> string \<Rightarrow> bool" where
  "endswith s u = suffix u s"

subsection \<open>Digits\<close>

definition is_digit :: "char \<Rightarrow> bool" where
  "is_digit ch = (let n = (of_char ch :: nat) in 48 \<le> n \<and> n \<le> 57)"

definition digit_of :: "char \<Rightarrow> int" where
  "digit_of ch = int (of_char ch) - 48"

text \<open>\<^verbatim>\<open>digitpart ::= digit (["_"] digit)*\<close>: digits, single underscores between them.\<close>

fun digitpart :: "string \<Rightarrow> bool" where
  "digitpart [] = False"
| "digitpart [c] = is_digit c"
| "digitpart (c # d # r) =
     (is_digit c \<and> (if d = CHR ''_'' then r \<noteq> [] \<and> digitpart r else digitpart (d # r)))"

text \<open>The number a digit part denotes; underscores are skipped.\<close>

definition digits_value :: "string \<Rightarrow> int" where
  "digits_value s = foldl (\<lambda>a ch. if is_digit ch then 10 * a + digit_of ch else a) 0 s"

definition count_digits :: "string \<Rightarrow> nat" where
  "count_digits s = length (filter is_digit s)"

definition split_sign :: "string \<Rightarrow> bool \<times> string" where
  "split_sign s =
     (case s of
        [] \<Rightarrow> (False, [])
      | c # r \<Rightarrow> if c = CHR ''-'' then (True, r) else if c = CHR ''+'' then (False, r) else (False, s))"

subsection \<open>\<^verbatim>\<open>int(s)\<close>\<close>

text \<open>
  Surrounding whitespace, an optional sign, a digit part.  Anything else, a fractional
  part included, raises \<^verbatim>\<open>ValueError\<close>; so does a literal of more than 4300 digits (the
  default limit of the interpreter on the conversion of decimal strings).
\<close>

definition py_int :: "string \<Rightarrow> py_exn + int" where
  "py_int s =
     (case split_sign (strip s) of
        (neg, d) \<Rightarrow>
          if digitpart d \<and> count_digits d \<le> 4300
          then Inr (if neg then - digits_value d else digits_value d)
          else Inl ValueError)"

subsection \<open>\<^verbatim>\<open>float(s)\<close>\<close>

text \<open>
  A float is a binary64 value: a rational, an infinity with its sign, or a NaN.  The sign
  of a zero is not kept; nothing below depends on it.
\<close>

datatype pyfloat = Finite rat | Infinity bool | NaN

text \<open>
  Rounding a rational to the nearest binary64 value, ties to even.  \<open>binade a\<close> is the
  exponent \<open>e\<close> with \<open>2\<^sup>e \<le> a < 2\<^sup>e\<^sup>+\<^sup>1\<close> of a positive \<open>a\<close>; the spacing of the values
  around \<open>a\<close> is \<open>2\<^sup>e\<^sup>-\<^sup>5\<^sup>2\<close>, and \<open>2\<^sup>-\<^sup>1\<^sup>0\<^sup>7\<^sup>4\<close> below the normal range; a result of
  \<open>2\<^sup>1\<^sup>0\<^sup>2\<^sup>4\<close> (the \<open>overflow_bound\<close>) or more is an infinity.
\<close>

definition binade :: "rat \<Rightarrow> int" where
  "binade a =
     (case quotient_of a of
        (p, q) \<Rightarrow> let e = bitlen p - bitlen q in if 2 powi e \<le> a then e else e - 1)"

definition round_half_even :: "rat \<Rightarrow> int" where
  "round_half_even x =
     (let f = \<lfloor>x\<rfloor>; d = x - of_int f
      in if d < 1 / 2 then f else if 1 / 2 < d then f + 1 else if even f then f else f + 1)"

definition overflow_bound :: rat where
  "overflow_bound = 2 powi 1024"

definition round_double :: "rat \<Rightarrow> pyfloat" where
  "round_double x =
     (if x = 0 then Finite 0
      else
        let a = \<bar>x\<bar>;
            e = max (binade a) (- 1022);
            ulp = 2 powi (e - 52);
            r = of_int (round_half_even (a / ulp)) * ulp
        in if overflow_bound \<le> r then Infinity (x < 0) else Finite (if x < 0 then - r else r))"

text \<open>A rational that is exactly a binary64 value.\<close>

definition representable :: "rat \<Rightarrow> bool" where
  "representable x \<longleftrightarrow> round_double x = Finite x"

text \<open>
  The decimal grammar of \<^verbatim>\<open>float\<close>: \<^verbatim>\<open>[digitpart] "." digitpart | digitpart ["."]\<close>,
  then an optional exponent \<^verbatim>\<open>("e" | "E") ["+" | "-"] digitpart\<close>.  The value is exact,
  a rational; \<open>None\<close> when the text is not of this form.
\<close>

definition pow10 :: "int \<Rightarrow> rat" where
  "pow10 k = 10 powi k"

definition mantissa_value :: "string \<Rightarrow> string \<Rightarrow> rat option" where
  "mantissa_value ip point =
     (case point of
        [] \<Rightarrow> if digitpart ip then Some (of_int (digits_value ip)) else None
      | dot # fp \<Rightarrow>
          if (ip = [] \<and> digitpart fp) \<or> (digitpart ip \<and> (fp = [] \<or> digitpart fp))
          then Some (of_int (digits_value ip) + of_int (digits_value fp) / 10 ^ count_digits fp)
          else None)"

definition exponent_value :: "string \<Rightarrow> int option" where
  "exponent_value ex =
     (case split_sign ex of
        (neg, d) \<Rightarrow>
          if digitpart d then Some (if neg then - digits_value d else digits_value d)
          else None)"

definition decimal_value :: "string \<Rightarrow> rat option" where
  "decimal_value r =
     (let no_e = (\<lambda>c. c \<noteq> CHR ''e'' \<and> c \<noteq> CHR ''E'');
          no_dot = (\<lambda>c. c \<noteq> CHR ''.'');
          mant = takeWhile no_e r;
          rest = dropWhile no_e r
      in case mantissa_value (takeWhile no_dot mant) (dropWhile no_dot mant) of
           None \<Rightarrow> None
         | Some m \<Rightarrow>
             (case rest of
                [] \<Rightarrow> Some m
              | e # ex \<Rightarrow>
                  (case exponent_value ex of None \<Rightarrow> None | Some k \<Rightarrow> Some (m * pow10 k))))"

text \<open>
  \<^verbatim>\<open>float(s)\<close>: surrounding whitespace, an optional sign, then \<^verbatim>\<open>inf\<close>, \<^verbatim>\<open>infinity\<close> or
  \<^verbatim>\<open>nan\<close> in any case, or a decimal, which is rounded correctly.
\<close>

definition py_float :: "string \<Rightarrow> py_exn + pyfloat" where
  "py_float s =
     (case split_sign (strip s) of
        (neg, r) \<Rightarrow>
          if lower r = ''inf'' \<or> lower r = ''infinity'' then Inr (Infinity neg)
          else if lower r = ''nan'' then Inr NaN
          else (case decimal_value r of
                  None \<Rightarrow> Inl ValueError
                | Some q \<Rightarrow> Inr (round_double (if neg then - q else q))))"

text \<open>
  \<^verbatim>\<open>x * mul\<close> for a float \<open>x\<close> and one of the multipliers, an integer that is a power of
  two (hence exactly a float, and positive): the product, rounded.
\<close>

definition float_times :: "pyfloat \<Rightarrow> int \<Rightarrow> pyfloat" where
  "float_times x mul =
     (case x of
        Finite a \<Rightarrow> round_double (a * of_int mul)
      | Infinity neg \<Rightarrow> Infinity neg
      | NaN \<Rightarrow> NaN)"

text \<open>\<^verbatim>\<open>int(x)\<close> for a float: truncation towards zero.\<close>

definition int_of_float :: "pyfloat \<Rightarrow> py_exn + int" where
  "int_of_float x =
     (case x of
        Finite a \<Rightarrow> Inr (if 0 \<le> a then \<lfloor>a\<rfloor> else \<lceil>a\<rceil>)
      | Infinity neg \<Rightarrow> Inl OverflowError
      | NaN \<Rightarrow> Inl ValueError)"

subsection \<open>\<^verbatim>\<open>parse_size\<close>\<close>

text \<open>
  The dictionary \<^verbatim>\<open>units\<close> in insertion order, and its items sorted by the key
  \<^verbatim>\<open>-len(x[0])\<close>; Python's sort is stable, as is \<open>sort_key\<close>.
\<close>

definition units :: "(string \<times> int) list" where
  "units = [(''k'', 1024), (''ki'', 1024), (''m'', 1024 ^ 2), (''mi'', 1024 ^ 2),
            (''g'', 1024 ^ 3), (''gi'', 1024 ^ 3), (''t'', 1024 ^ 4), (''ti'', 1024 ^ 4)]"

definition sorted_units :: "(string \<times> int) list" where
  "sorted_units = sort_key (\<lambda>x. - int (length (fst x))) units"

text \<open>
  The \<^verbatim>\<open>for\<close> loop over the sorted items, with \<^verbatim>\<open>return int(s)\<close> after it.
  \<^verbatim>\<open>s[:-len(u)]\<close> is \<open>s\<close> without its last \<open>len(u)\<close> characters, and \<open>scaled r mul\<close> is
  \<^verbatim>\<open>int(r * mul)\<close> for the outcome \<open>r\<close> of \<^verbatim>\<open>float(...)\<close>, whose exception goes through.
\<close>

definition scaled :: "py_exn + pyfloat \<Rightarrow> int \<Rightarrow> py_exn + int" where
  "scaled r mul = (case r of Inl e \<Rightarrow> Inl e | Inr x \<Rightarrow> int_of_float (float_times x mul))"

fun scan_units :: "string \<Rightarrow> (string \<times> int) list \<Rightarrow> py_exn + int" where
  "scan_units s [] = py_int s"
| "scan_units s ((u, mul) # rest) =
     (if endswith s u then scaled (py_float (take (length s - length u) s)) mul
      else scan_units s rest)"

definition parse_size :: "string \<Rightarrow> py_exn + int" where
  "parse_size s = scan_units (lower (strip s)) sorted_units"

text \<open>The power of 1024 that the specification assigns to a unit suffix.\<close>

definition unit_power :: "string \<Rightarrow> nat" where
  "unit_power u =
     (if u = ''k'' \<or> u = ''ki'' then 1
      else if u = ''m'' \<or> u = ''mi'' then 2
      else if u = ''g'' \<or> u = ''gi'' then 3
      else if u = ''t'' \<or> u = ''ti'' then 4
      else 0)"

text \<open>The characters of an unsigned decimal without exponent: digits and the point.\<close>

definition plain_char :: "char \<Rightarrow> bool" where
  "plain_char c \<longleftrightarrow> is_digit c \<or> c = CHR ''.''"

section \<open>Numbers in log lines and in \<^verbatim>\<open>time.sleep\<close>\<close>

text \<open>
  \<^verbatim>\<open>float(n)\<close> for an integer: the nearest binary64 value, and \<^verbatim>\<open>OverflowError\<close> when that
  is not finite.
\<close>

definition float_of_int :: "int \<Rightarrow> py_exn + pyfloat" where
  "float_of_int n =
     (case round_double (of_int n) of
        Infinity neg \<Rightarrow> Inl OverflowError
      | x \<Rightarrow> Inr x)"

text \<open>
  \<^verbatim>\<open>human(n)\<close> formats a byte count.  It starts with \<^verbatim>\<open>float(n)\<close>; the divisions by 1024
  and the formatting that follow cannot fail.  The text is not kept: \<open>human n\<close> is the
  exception that the call raises, if any.  (In the burst script \<^verbatim>\<open>human(None)\<close> is the
  text \<^verbatim>\<open>n/a\<close>; the ramp script guards its calls on telemetry the same way.)
\<close>

definition human :: "int \<Rightarrow> py_exn option" where
  "human n = (case float_of_int n of Inl e \<Rightarrow> Some e | Inr x \<Rightarrow> None)"

text \<open>
  The least positive integer that \<^verbatim>\<open>float\<close> does not convert, halfway between the largest
  binary64 value and \<open>2\<^sup>1\<^sup>0\<^sup>2\<^sup>4\<close> (see \<open>human_iff\<close> below).
\<close>

definition float_limit :: int where
  "float_limit = 2 ^ 1024 - 2 ^ 970"

text \<open>
  \<^verbatim>\<open>time.sleep(p)\<close> for a finite float \<open>p\<close>: the exception it raises, if any.  The argument
  is scaled to nanoseconds in floating point and rounded away from zero to an integer; a
  count outside the signed 64-bit range raises \<^verbatim>\<open>OverflowError\<close>, a negative count
  \<^verbatim>\<open>ValueError\<close>.
\<close>

definition py_sleep :: "rat \<Rightarrow> py_exn option" where
  "py_sleep p =
     (case round_double (p * 10 ^ 9) of
        Finite d \<Rightarrow>
          (let ns = (if 0 \<le> d then \<lceil>d\<rceil> else \<lfloor>d\<rfloor>)
           in if ns < - (2 ^ 63) \<or> 2 ^ 63 \<le> ns then Some OverflowError
              else if ns < 0 then Some ValueError
              else None)
      | Infinity neg \<Rightarrow> Some OverflowError
      | NaN \<Rightarrow> Some ValueError)"

section \<open>Effects shared by both programs\<close>

text \<open>
  Every function of the scripts that the theorems below speak about is embedded as a HOL
  function that threads an explicit state through the statements of the Python body.
  What the process does to the outside world is kept as a \<open>trace\<close> of events, in program
  order.

  Telemetry comes from pseudo-files of the kernel, whose content the program does not
  control.  The kernel prints there the decimal of an unsigned 64-bit counter (or the word
  \<^verbatim>\<open>max\<close>), and a file that is missing or does not parse makes the reader return
  \<^verbatim>\<open>None\<close>.  So the result of the \<open>k\<close>-th call of each reader is given by an environment:
  \<open>mem_current E k\<close> is what the \<open>k\<close>-th call of \<^verbatim>\<open>read_mem_current()\<close> finds, a 64-bit
  word or nothing, \<open>mem_max E k\<close> likewise for the \<^verbatim>\<open>mem_limit\<close> component of the \<open>k\<close>-th
  call of \<^verbatim>\<open>read_cgroup_limits()\<close>; \<open>cur_src\<close> and \<open>lim_src\<close> are these readings as the
  Python integers the readers return.  \<open>alloc_ok E k n\<close> says whether the \<open>k\<close>-th request
  of \<open>n\<close> bytes that \<^verbatim>\<open>bytearray\<close> makes to the platform is satisfied (otherwise
  \<^verbatim>\<open>MemoryError\<close> is raised).

  Log lines are kept as structured records: the arguments that the f-string formats, not
  the formatted text.  A reading below \<open>2\<^sup>6\<^sup>4\<close> is always formatted without error, also the
  peak, the resident set size and the ratio \<^verbatim>\<open>cur/lim*100\<close>; the calls of \<^verbatim>\<open>human\<close> on the
  integers of the program itself can raise, and are kept (see \<open>log_line\<close>).
\<close>

datatype proc = IoProc | CpuWorker nat

datatype log_record =
    MemBurstTarget int int int "int option"
  | MemSlowTarget int int rat int
  | MemHeadroomStop "int option" "int option"
  | MemPlan int int
  | MemAllocated int nat "int option" "int option"
  | MemMemoryError int int
  | MemDone int nat
  | IoSkipped
  | IoWriting int
  | IoDone
  | IoError
  | IoRemoved
  | CpuStarted nat int "nat option"
  | MainStart
  | MainLimits "int option"
  | MainFinal "int option"
  | GracefulStop

datatype event =
    ReadLimits
  | ReadCurrent
  | ReadPeak
  | ReadRss
  | ReadMemEvents
  | ReadCpuStat
  | Alloc int
  | AllocFailed int
  | Sleep rat
  | Log log_record
  | Start proc
  | Join proc "rat option"
  | MakeDirs
  | MkStemp
  | OpenFile
  | WriteZeros int int
  | WriteFailed int
  | Flush
  | Fsync
  | CloseFile
  | Remove

record env =
  mem_current :: "nat \<Rightarrow> 64 word option"
  mem_max :: "nat \<Rightarrow> 64 word option"
  alloc_ok :: "nat \<Rightarrow> int \<Rightarrow> bool"

definition cur_src :: "env \<Rightarrow> nat \<Rightarrow> int option" where
  "cur_src E k = map_option uint (mem_current E k)"

definition lim_src :: "env \<Rightarrow> nat \<Rightarrow> int option" where
  "lim_src E k = map_option uint (mem_max E k)"

text \<open>
  The state of a run: the two locals \<^verbatim>\<open>blocks\<close> and \<^verbatim>\<open>allocated\<close> of the allocation
  loop, the number of calls made so far to each reader and of requests made to the
  platform by \<^verbatim>\<open>bytearray\<close>, and the trace.  A retained block is represented by its
  length: \<^verbatim>\<open>touch_pages\<close> writes one byte per page and leaves the length alone.
\<close>

record mstate =
  blocks :: "int list"
  allocated :: int
  cur_reads :: nat
  lim_reads :: nat
  allocs :: nat
  trace :: "event list"

record mem_cfg =
  want_bytes :: int
  block_bytes :: int
  headroom_bytes :: int

definition emit :: "event \<Rightarrow> mstate \<Rightarrow> mstate" where
  "emit e st = st\<lparr>trace := trace st @ [e]\<rparr>"

definition read_mem_current :: "env \<Rightarrow> mstate \<Rightarrow> int option \<times> mstate" where
  "read_mem_current E st =
     (cur_src E (cur_reads st),
      st\<lparr>cur_reads := Suc (cur_reads st), trace := trace st @ [ReadCurrent]\<rparr>)"

definition read_cgroup_limits :: "env \<Rightarrow> mstate \<Rightarrow> int option \<times> mstate" where
  "read_cgroup_limits E st =
     (lim_src E (lim_reads st),
      st\<lparr>lim_reads := Suc (lim_reads st), trace := trace st @ [ReadLimits]\<rparr>)"

text \<open>
  \<^verbatim>\<open>logger.log(f"...")\<close> where the f-string calls \<^verbatim>\<open>human\<close> on the integers \<open>ns\<close> of
  the program: the string is built before \<^verbatim>\<open>log\<close> is called, so an exception of
  \<^verbatim>\<open>human\<close> leaves the statement and nothing is logged.
\<close>

definition log_line :: "int list \<Rightarrow> log_record \<Rightarrow> mstate \<Rightarrow> py_exn + mstate" where
  "log_line ns r st =
     (if list_all (\<lambda>n. human n = None) ns then Inr (emit (Log r) st) else Inl OverflowError)"

text \<open>
  \<^verbatim>\<open>lim is not None and cur is not None and cur >= max(0, lim - headroom_bytes)\<close>
\<close>

definition headroom_hit :: "int option \<Rightarrow> int option \<Rightarrow> int \<Rightarrow> bool" where
  "headroom_hit limit cur headroom =
     (case limit of
        None \<Rightarrow> False
      | Some l \<Rightarrow> (case cur of None \<Rightarrow> False | Some c \<Rightarrow> max 0 (l - headroom) \<le> c))"

text \<open>
  \<^verbatim>\<open>bytearray(bsz)\<close>: a negative count raises \<^verbatim>\<open>ValueError\<close> and a count above
  \<^verbatim>\<open>sys.maxsize\<close>, \<open>2\<^sup>6\<^sup>3 - 1\<close> on the 64-bit platforms the scripts are run on, raises
  \<^verbatim>\<open>OverflowError\<close>, both before anything is requested from the platform; otherwise the
  platform grants the request or \<^verbatim>\<open>MemoryError\<close> is raised.
\<close>

datatype alloc_result = Granted | MemoryError | NegativeCount | TooLarge

definition bytearray :: "env \<Rightarrow> nat \<Rightarrow> int \<Rightarrow> alloc_result" where
  "bytearray E k bsz =
     (if bsz < 0 then NegativeCount
      else if 2 ^ 63 \<le> bsz then TooLarge
      else if alloc_ok E k bsz then Granted
      else MemoryError)"

text \<open>
  How the \<^verbatim>\<open>while\<close> loop is left: its condition became false, the \<^verbatim>\<open>break\<close> of the
  headroom check, a \<^verbatim>\<open>MemoryError\<close> (caught by the \<^verbatim>\<open>except\<close> around the loop), or
  another exception, which nothing in the function catches.
\<close>

datatype loop_exit = Completed | HeadroomStopped | MemoryErrorCaught | Raised py_exn

datatype step = Continue mstate | Break loop_exit mstate

text \<open>
  \<^verbatim>\<open>while allocated < want: body\<close>.  The loop need not terminate (a block size of 0
  never advances \<^verbatim>\<open>allocated\<close>), so it runs on fuel: one unit per execution of the body,
  and \<open>None\<close> when the fuel is gone while the condition still holds.
\<close>

fun while_allocating :: "nat \<Rightarrow> int \<Rightarrow> (mstate \<Rightarrow> step) \<Rightarrow> mstate \<Rightarrow> (loop_exit \<times> mstate) option" where
  "while_allocating 0 want body st =
     (if allocated st < want then None else Some (Completed, st))"
| "while_allocating (Suc fuel) want body st =
     (if allocated st < want
      then (case body st of
              Continue st' \<Rightarrow> while_allocating fuel want body st'
            | Break x st' \<Rightarrow> Some (x, st'))
      else Some (Completed, st))"

subsection \<open>\<^verbatim>\<open>mem_burst\<close> of the burst script\<close>

text \<open>
  Lines 97--108: one execution of the loop body.  \<open>limit\<close> is the value read once, before
  the loop, at line 93.  The plan line formats \<^verbatim>\<open>bsz\<close> and \<^verbatim>\<open>allocated\<close>, the line after
  the allocation formats \<^verbatim>\<open>allocated\<close>; the other numbers of these lines are telemetry.
\<close>

definition mem_burst_body :: "env \<Rightarrow> mem_cfg \<Rightarrow> int option \<Rightarrow> mstate \<Rightarrow> step" where
  "mem_burst_body E c limit st =
     (let (cur, st1) = read_mem_current E st in
      if headroom_hit limit cur (headroom_bytes c)
      then Break HeadroomStopped (emit (Log (MemHeadroomStop cur limit)) st1)
      else
        let remain = want_bytes c - allocated st1;
            bsz = min (block_bytes c) remain
        in (case log_line [bsz, allocated st1] (MemPlan bsz (allocated st1)) st1 of
              Inl e \<Rightarrow> Break (Raised e) st1
            | Inr st2 \<Rightarrow>
                (case bytearray E (allocs st2) bsz of
                   NegativeCount \<Rightarrow> Break (Raised ValueError) st2
                 | TooLarge \<Rightarrow> Break (Raised OverflowError) st2
                 | MemoryError \<Rightarrow>
                     Break MemoryErrorCaught (emit (AllocFailed bsz) (st2\<lparr>allocs := Suc (allocs st2)\<rparr>))
                 | Granted \<Rightarrow>
                     let st3 = emit (Alloc bsz) (st2\<lparr>allocs := Suc (allocs st2)\<rparr>);
                         st4 = st3\<lparr>blocks := blocks st3 @ [bsz], allocated := allocated st3 + bsz\<rparr>;
                         (cur', st5) = read_mem_current E st4;
                         st6 = emit ReadPeak st5
                     in (case log_line [allocated st6]
                                (MemAllocated (allocated st6) (length (blocks st6)) cur' limit) st6 of
                           Inl e \<Rightarrow> Break (Raised e) st6
                         | Inr st7 \<Rightarrow> Continue st7))))"

text \<open>
  Lines 92--111.  The function starts from the caller's world \<open>w\<close> (its counters and
  trace) with fresh locals.  The header line stands before the \<^verbatim>\<open>try\<close>; the line of the
  \<^verbatim>\<open>except\<close> clause formats \<^verbatim>\<open>allocated\<close> and \<^verbatim>\<open>want_bytes\<close>.  \<open>mem_burst_run\<close> gives the
  way the function was left and the final state; \<open>mem_burst\<close> is what the caller sees: the
  returned list, or the exception that escaped.
\<close>

definition mem_burst_run :: "nat \<Rightarrow> env \<Rightarrow> mem_cfg \<Rightarrow> mstate \<Rightarrow> (loop_exit \<times> mstate) option" where
  "mem_burst_run fuel E c w =
     (let st0 = w\<lparr>blocks := [], allocated := 0\<rparr>;
          (limit, st1) = read_cgroup_limits E st0
      in (case log_line [want_bytes c, block_bytes c, headroom_bytes c]
                 (MemBurstTarget (want_bytes c) (block_bytes c) (headroom_bytes c) limit) st1 of
            Inl e \<Rightarrow> Some (Raised e, st1)
          | Inr st2 \<Rightarrow>
              (case while_allocating fuel (want_bytes c) (mem_burst_body E c limit) st2 of
                 None \<Rightarrow> None
               | Some (MemoryErrorCaught, st) \<Rightarrow>
                   (case log_line [allocated st, want_bytes c]
                           (MemMemoryError (allocated st) (want_bytes c)) st of
                      Inl e \<Rightarrow> Some (Raised e, st)
                    | Inr st' \<Rightarrow> Some (MemoryErrorCaught, st'))
               | Some (x, st) \<Rightarrow> Some (x, st))))"

definition returned :: "(loop_exit \<times> mstate) option \<Rightarrow> (py_exn + int list) option" where
  "returned r =
     (case r of
        None \<Rightarrow> None
      | Some (Raised e, st) \<Rightarrow> Some (Inl e)
      | Some (x, st) \<Rightarrow> Some (Inr (blocks st)))"

definition mem_burst :: "nat \<Rightarrow> env \<Rightarrow> mem_cfg \<Rightarrow> mstate \<Rightarrow> (py_exn + int list) option" where
  "mem_burst fuel E c w = returned (mem_burst_run fuel E c w)"

subsection \<open>\<^verbatim>\<open>allocate_slow\<close> (stress.py)\<close>

text \<open>
  Lines 118--131.  The limit is read inside the loop, on every execution of the body.
  \<open>pause_sec\<close> is the value of a finite float; \<^verbatim>\<open>main\<close> passes
  \<^verbatim>\<open>max(0.0, args.mem_interval)\<close>.
\<close>

definition allocate_slow_body :: "env \<Rightarrow> mem_cfg \<Rightarrow> rat \<Rightarrow> mstate \<Rightarrow> step" where
  "allocate_slow_body E c pause_sec st =
     (let (cur, st0) = read_mem_current E st;
          (limit, st1) = read_cgroup_limits E st0 in
      if headroom_hit limit cur (headroom_bytes c)
      then Break HeadroomStopped (emit (Log (MemHeadroomStop cur limit)) st1)
      else
        let remaining = want_bytes c - allocated st1;
            bsz = min (block_bytes c) remaining
        in (case log_line [bsz, allocated st1] (MemPlan bsz (allocated st1)) st1 of
              Inl e \<Rightarrow> Break (Raised e) st1
            | Inr st2 \<Rightarrow>
                (case bytearray E (allocs st2) bsz of
                   NegativeCount \<Rightarrow> Break (Raised ValueError) st2
                 | TooLarge \<Rightarrow> Break (Raised OverflowError) st2
                 | MemoryError \<Rightarrow>
                     Break MemoryErrorCaught (emit (AllocFailed bsz) (st2\<lparr>allocs := Suc (allocs st2)\<rparr>))
                 | Granted \<Rightarrow>
                     let st3 = emit (Alloc bsz) (st2\<lparr>allocs := Suc (allocs st2)\<rparr>);
                         st4 = st3\<lparr>blocks := blocks st3 @ [bsz], allocated := allocated st3 + bsz\<rparr>;
                         (cur', st5) = read_mem_current E st4;
                         st6 = emit ReadMemEvents (emit ReadRss (emit ReadPeak st5))
                     in (case log_line [allocated st6]
                                (MemAllocated (allocated st6) (length (blocks st6)) cur' limit) st6 of
                           Inl e \<Rightarrow> Break (Raised e) st6
                         | Inr st7 \<Rightarrow>
                             (case py_sleep pause_sec of
                                Some e \<Rightarrow> Break (Raised e) st7
                              | None \<Rightarrow> Continue (emit (Sleep pause_sec) st7))))))"

text \<open>
  Lines 114--136.  The header line stands before the \<^verbatim>\<open>try\<close>.  After the \<^verbatim>\<open>try\<close>
  statement the summary line is logged and the list returned, unless an exception other
  than \<^verbatim>\<open>MemoryError\<close> is on its way out.
\<close>

definition allocate_slow_run :: "nat \<Rightarrow> env \<Rightarrow> mem_cfg \<Rightarrow> rat \<Rightarrow> mstate \<Rightarrow> (loop_exit \<times> mstate) option" where
  "allocate_slow_run fuel E c pause_sec w =
     (let st0 = w\<lparr>blocks := [], allocated := 0\<rparr>
      in (case log_line [want_bytes c, block_bytes c, headroom_bytes c]
                 (MemSlowTarget (want_bytes c) (block_bytes c) pause_sec (headroom_bytes c)) st0 of
            Inl e \<Rightarrow> Some (Raised e, st0)
          | Inr st1 \<Rightarrow>
              (case while_allocating fuel (want_bytes c) (allocate_slow_body E c pause_sec) st1 of
                 None \<Rightarrow> None
               | Some (Raised e, st) \<Rightarrow> Some (Raised e, st)
               | Some (MemoryErrorCaught, st) \<Rightarrow>
                   (case log_line [allocated st, want_bytes c]
                           (MemMemoryError (allocated st) (want_bytes c)) st of
                      Inl e \<Rightarrow> Some (Raised e, st)
                    | Inr st' \<Rightarrow>
                        (case log_line [allocated st'] (MemDone (allocated st') (length (blocks st'))) st' of
                           Inl e \<Rightarrow> Some (Raised e, st')
                         | Inr st'' \<Rightarrow> Some (MemoryErrorCaught, st'')))
               | Some (x, st) \<Rightarrow>
                   (case log_line [allocated st] (MemDone (allocated st) (length (blocks st))) st of
                      Inl e \<Rightarrow> Some (Raised e, st)
                    | Inr st' \<Rightarrow> Some (x, st')))))"

definition allocate_slow :: "nat \<Rightarrow> env \<Rightarrow> mem_cfg \<Rightarrow> rat \<Rightarrow> mstate \<Rightarrow> (py_exn + int list) option" where
  "allocate_slow fuel E c pause_sec w = returned (allocate_slow_run fuel E c pause_sec w)"

subsection \<open>Vocabulary for the allocation loops\<close>

text \<open>
  The size the loop computes for the next block, and the two ways one execution of the
  body can change the locals: it appends that block and advances \<^verbatim>\<open>allocated\<close> by its
  size, or it leaves both alone.
\<close>

definition next_block :: "mem_cfg \<Rightarrow> mstate \<Rightarrow> int" where
  "next_block c st = min (block_bytes c) (want_bytes c - allocated st)"

definition appends :: "mem_cfg \<Rightarrow> mstate \<Rightarrow> mstate \<Rightarrow> bool" where
  "appends c s s' \<longleftrightarrow>
     blocks s' = blocks s @ [next_block c s] \<and> allocated s' = allocated s + next_block c s \<and>
     0 \<le> next_block c s"

definition keeps :: "mstate \<Rightarrow> mstate \<Rightarrow> bool" where
  "keeps s s' \<longleftrightarrow> blocks s' = blocks s \<and> allocated s' = allocated s"

definition sized :: "mem_cfg \<Rightarrow> mstate \<Rightarrow> bool" where
  "sized c s \<longleftrightarrow>
     allocated s = sum_list (blocks s) \<and> allocated s \<le> max 0 (want_bytes c) \<and>
     (\<forall>i<length (blocks s).
        blocks s ! i = min (block_bytes c) (want_bytes c - sum_list (take i (blocks s))))"

text \<open>The state in which each function enters its loop.\<close>

definition mem_burst_entry :: "env \<Rightarrow> mem_cfg \<Rightarrow> mstate \<Rightarrow> mstate" where
  "mem_burst_entry E c w =
     w\<lparr>blocks := [], allocated := 0, lim_reads := Suc (lim_reads w),
       trace := trace w @ [ReadLimits,
         Log (MemBurstTarget (want_bytes c) (block_bytes c) (headroom_bytes c) (lim_src E (lim_reads w)))]\<rparr>"

definition allocate_slow_entry :: "mem_cfg \<Rightarrow> rat \<Rightarrow> mstate \<Rightarrow> mstate" where
  "allocate_slow_entry c p w =
     w\<lparr>blocks := [], allocated := 0,
       trace := trace w @ [Log (MemSlowTarget (want_bytes c) (block_bytes c) p (headroom_bytes c))]\<rparr>"

text \<open>A process that has done nothing yet, and an environment without telemetry in which
  every allocation is granted.\<close>

definition fresh_world :: mstate where
  "fresh_world = \<lparr>blocks = [], allocated = 0, cur_reads = 0, lim_reads = 0, allocs = 0, trace = []\<rparr>"

definition quiet_env :: env where
  "quiet_env = \<lparr>mem_current = (\<lambda>k. None), mem_max = (\<lambda>k. None), alloc_ok = (\<lambda>k n. True)\<rparr>"

text \<open>
  The headroom test of iteration \<open>j\<close> (counting from 0) of a run started in the world \<open>w\<close>.
  Every iteration before it has made two readings of the current usage.  In \<^verbatim>\<open>mem_burst\<close>
  the test is on the limit read before the loop; in \<^verbatim>\<open>allocate_slow\<close> it is on the limit
  read in that iteration, the \<open>j\<close>-th limit read of the run.
\<close>

definition burst_check :: "env \<Rightarrow> mem_cfg \<Rightarrow> mstate \<Rightarrow> nat \<Rightarrow> bool" where
  "burst_check E c w j =
     headroom_hit (lim_src E (lim_reads w)) (cur_src E (cur_reads w + 2 * j)) (headroom_bytes c)"

definition slow_check :: "env \<Rightarrow> mem_cfg \<Rightarrow> mstate \<Rightarrow> nat \<Rightarrow> bool" where
  "slow_check E c w j =
     headroom_hit (lim_src E (lim_reads w + j)) (cur_src E (cur_reads w + 2 * j)) (headroom_bytes c)"

text \<open>
  The sizes of a configuration that the header line of a run formats without error.
\<close>

definition header_ok :: "mem_cfg \<Rightarrow> bool" where
  "header_ok c \<longleftrightarrow>
     human (want_bytes c) = None \<and> human (block_bytes c) = None \<and> human (headroom_bytes c) = None"

text \<open>
  How many more times the body runs when every allocation is granted and the headroom
  check never fires: the remaining bytes divided by the block size, rounded up.
\<close>

definition iterations_left :: "mem_cfg \<Rightarrow> mstate \<Rightarrow> nat" where
  "iterations_left c s = nat ((want_bytes c - allocated s + block_bytes c - 1) div block_bytes c)"

text \<open>
  Reading a run off its trace: the sizes of the allocations that were granted, in order;
  the events a function added to the trace it was handed; a stretch of trace without a
  refused allocation.
\<close>

fun granted :: "event list \<Rightarrow> int list" where
  "granted [] = []"
| "granted (Alloc n # es) = n # granted es"
| "granted (e # es) = granted es"

definition new_events :: "mstate \<Rightarrow> mstate \<Rightarrow> event list" where
  "new_events w st = drop (length (trace w)) (trace st)"

definition no_failure :: "event list \<Rightarrow> bool" where
  "no_failure t \<longleftrightarrow> (\<forall>n. AllocFailed n \<notin> set t)"

definition clean :: "mstate \<Rightarrow> mstate \<Rightarrow> bool" where
  "clean w s \<longleftrightarrow> (\<exists>t. trace s = trace w @ t \<and> blocks s = granted t \<and> no_failure t)"

definition failed_at_end :: "mstate \<Rightarrow> mstate \<Rightarrow> bool" where
  "failed_at_end w s \<longleftrightarrow>
     (\<exists>t n. trace s = trace w @ t @ [AllocFailed n] \<and> blocks s = granted t \<and> no_failure t)"

definition outcome :: "mstate \<Rightarrow> loop_exit \<Rightarrow> mstate \<Rightarrow> bool" where
  "outcome w x s \<longleftrightarrow> (if x = MemoryErrorCaught then failed_at_end w s else clean w s)"

definition exhausted_env :: env where
  "exhausted_env = \<lparr>mem_current = (\<lambda>k. None), mem_max = (\<lambda>k. None), alloc_ok = (\<lambda>k n. k < 2)\<rparr>"

text \<open>
  Every execution of a loop body performs one headroom check and then logs either the
  stop record or the plan for the next block; \<open>checks\<close> counts these records, hence the
  headroom checks (the iterations entered).  The other predicates count telemetry reads
  against checks: within one iteration, within the loop, and in the lines that only
  summarise.
\<close>

fun is_check :: "event \<Rightarrow> bool" where
  "is_check (Log (MemPlan b a)) = True"
| "is_check (Log (MemHeadroomStop c l)) = True"
| "is_check e = False"

definition checks :: "event list \<Rightarrow> nat" where
  "checks t = length (filter is_check t)"

definition iteration_reads :: "nat \<Rightarrow> event list \<Rightarrow> bool" where
  "iteration_reads nl u \<longleftrightarrow>
     checks u = 1 \<and> count_list u ReadLimits = nl \<and> count_list u ReadCurrent = Suc (length (granted u))"

definition loop_reads :: "nat \<Rightarrow> event list \<Rightarrow> bool" where
  "loop_reads nl t \<longleftrightarrow>
     count_list t ReadLimits = nl * checks t \<and> count_list t ReadCurrent = checks t + length (granted t)"

definition reads_since :: "nat \<Rightarrow> mstate \<Rightarrow> mstate \<Rightarrow> bool" where
  "reads_since nl e s \<longleftrightarrow>
     (\<exists>t. trace s = trace e @ t \<and> loop_reads nl t \<and> lim_reads s = lim_reads e + nl * checks t)"

definition summary_only :: "event list \<Rightarrow> bool" where
  "summary_only u \<longleftrightarrow>
     checks u = 0 \<and> count_list u ReadLimits = 0 \<and> count_list u ReadCurrent = 0 \<and> granted u = []"

definition drift_env :: env where
  "drift_env = \<lparr>mem_current = (\<lambda>k. Some 150), mem_max = (\<lambda>k. if k = 0 then Some 1000 else Some 100),
                 alloc_ok = (\<lambda>k n. True)\<rparr>"

text \<open>
  Telemetry for the scenario of a 200 MiB limit: the usage reported is 80 MiB per block
  already allocated.
\<close>

definition scenario_env :: env where
  "scenario_env = \<lparr>mem_current = (\<lambda>k. Some (of_nat (k div 2) * 83886080)),
                    mem_max = (\<lambda>k. Some 209715200), alloc_ok = (\<lambda>k n. True)\<rparr>"

section \<open>The I/O engine: \<^verbatim>\<open>io_burst\<close> of the burst script\<close>

text \<open>
  \<^verbatim>\<open>io_burst\<close> runs in a process of its own, so it has a trace of its own.  Whether a
  call into the file system succeeds is decided by the platform.  The file is opened
  unbuffered, so \<^verbatim>\<open>f.write\<close> is one request to the platform, which may take fewer bytes
  than it is handed and say so in the count it returns: \<open>write_cap F k\<close> is the number of
  bytes the platform can take at the \<open>k\<close>-th call of \<^verbatim>\<open>f.write\<close>, and \<open>None\<close> when that
  call raises.  \<open>WriteZeros n m\<close> is a call with \<^verbatim>\<open>chunk[:n]\<close>, that is with \<open>n\<close> zero bytes,
  of which \<open>m\<close> were written; \<open>WriteFailed n\<close> is a call that raised.  The other events
  stand for calls made, whether they succeeded or not; \<open>Remove\<close> is the call of
  \<^verbatim>\<open>os.remove\<close>.
\<close>

record io_env =
  makedirs_ok :: bool
  mkstemp_ok :: bool
  fdopen_ok :: bool
  write_cap :: "nat \<Rightarrow> nat option"
  flush_ok :: bool
  fsync_ok :: bool
  close_ok :: bool
  remove_ok :: bool

text \<open>
  Lines 149--153: \<^verbatim>\<open>while left > 0: n = min(left, len(chunk)); f.write(chunk[:n]); left -= n\<close>,
  from the \<open>k\<close>-th write on.  The count that \<^verbatim>\<open>f.write\<close> returns is not looked at:
  \<^verbatim>\<open>left\<close> goes down by \<open>n\<close> whatever was written.  The result says whether the loop
  ended without an exception.
\<close>

function write_chunks :: "(nat \<Rightarrow> nat option) \<Rightarrow> nat \<Rightarrow> int \<Rightarrow> event list \<times> bool" where
  "write_chunks cap k left =
     (if 0 < left
      then (let n = min left (1024 * 1024) in
            case cap k of
              None \<Rightarrow> ([WriteFailed n], False)
            | Some q \<Rightarrow>
                (case write_chunks cap (Suc k) (left - n) of
                   (es, r) \<Rightarrow> (WriteZeros n (min n (int q)) # es, r)))
      else ([], True))"
  by pat_completeness auto
termination
  by (relation "measure (\<lambda>(cap, k, left). nat left)") auto

declare write_chunks.simps [simp del]

text \<open>
  Lines 147--154, the \<^verbatim>\<open>with\<close> statement: open, write, flush, sync; leaving the block
  closes the file, also when an exception is on its way out.  The result says whether the
  statement ended without an exception.
\<close>

definition io_write_phase :: "io_env \<Rightarrow> int \<Rightarrow> event list \<times> bool" where
  "io_write_phase F size_bytes =
     (if \<not> fdopen_ok F then ([OpenFile], False)
      else (case write_chunks (write_cap F) 0 size_bytes of
              (ws, wrote) \<Rightarrow>
                if \<not> wrote then (OpenFile # ws @ [CloseFile], False)
                else if \<not> flush_ok F then (OpenFile # ws @ [Flush, CloseFile], False)
                else if \<not> fsync_ok F then (OpenFile # ws @ [Flush, Fsync, CloseFile], False)
                else (OpenFile # ws @ [Flush, Fsync, CloseFile], close_ok F)))"

text \<open>
  Lines 139--162.  \<^verbatim>\<open>os.makedirs\<close>, \<^verbatim>\<open>tempfile.mkstemp\<close> and the line that announces the
  write, which formats \<^verbatim>\<open>size_bytes\<close> through \<^verbatim>\<open>human\<close>, stand before the \<^verbatim>\<open>try\<close>: their
  exception leaves the function.  Everything after is caught, and the \<^verbatim>\<open>finally\<close>
  clause calls \<^verbatim>\<open>os.remove\<close>.
\<close>

definition io_burst :: "io_env \<Rightarrow> int \<Rightarrow> event list \<times> py_exn option" where
  "io_burst F size_bytes =
     (if size_bytes \<le> 0 then ([Log IoSkipped], None)
      else if \<not> makedirs_ok F then ([MakeDirs], Some OSError)
      else if \<not> mkstemp_ok F then ([MakeDirs, MkStemp], Some OSError)
      else (case human size_bytes of
              Some e \<Rightarrow> ([MakeDirs, MkStemp], Some e)
            | None \<Rightarrow>
                (case io_write_phase F size_bytes of
                   (es, finished) \<Rightarrow>
                     ([MakeDirs, MkStemp, Log (IoWriting size_bytes)] @ es @
                      [Log (if finished then IoDone else IoError), Remove] @
                      (if remove_ok F then [Log IoRemoved] else []), None))))"

text \<open>
  The bytes that reached the file, the sizes of all writes attempted, and whether the
  file system was touched at all.
\<close>

fun bytes_written :: "event list \<Rightarrow> int" where
  "bytes_written [] = 0"
| "bytes_written (WriteZeros n m # es) = m + bytes_written es"
| "bytes_written (e # es) = bytes_written es"

fun write_sizes :: "event list \<Rightarrow> int list" where
  "write_sizes [] = []"
| "write_sizes (WriteZeros n m # es) = n # write_sizes es"
| "write_sizes (WriteFailed n # es) = n # write_sizes es"
| "write_sizes (e # es) = write_sizes es"

section \<open>The CPU engine\<close>

text \<open>
  A worker is a process; the parent's trace holds its \<open>Start\<close> and the parent's \<open>Join\<close>
  on it, with the timeout handed to \<^verbatim>\<open>join\<close> in seconds (\<open>None\<close> when \<^verbatim>\<open>join()\<close> is
  called without one).  The body of a worker, a busy loop on the wall clock and on floats,
  is not part of the model, nor is the deadline handed to it.  \<open>avail\<close> is the sorted
  affinity set, \<open>None\<close> when \<^verbatim>\<open>os.sched_getaffinity\<close> raised.
\<close>

definition pin_for :: "bool \<Rightarrow> nat list option \<Rightarrow> nat \<Rightarrow> nat option" where
  "pin_for no_affinity avail i =
     (case avail of
        None \<Rightarrow> None
      | Some cpus \<Rightarrow> if \<not> no_affinity \<and> cpus \<noteq> [] then Some (cpus ! (i mod length cpus)) else None)"

text \<open>\<^verbatim>\<open>cpu_burst\<close>, lines 129--137 of the burst script: start all workers, then join each.\<close>

definition cpu_burst :: "nat list option \<Rightarrow> int \<Rightarrow> bool \<Rightarrow> event list" where
  "cpu_burst avail nproc no_affinity =
     concat (map (\<lambda>i. [Start (CpuWorker i),
                       Log (CpuStarted (i + 1) nproc (pin_for no_affinity avail i))])
               [0..<nat nproc]) @
     map (\<lambda>i. Join (CpuWorker i) None) [0..<nat nproc]"

text \<open>
  \<^verbatim>\<open>run_cpu_ramp\<close>, lines 151--171 of the ramp script.  The loop watches the wall
  clock: \<open>clock k\<close> is what the \<open>k\<close>-th call of \<^verbatim>\<open>time.time()\<close> returns, in seconds.
  Nothing forces the clock to reach the deadline, so the loop runs on fuel.
  \<^verbatim>\<open>time.sleep(ramp_every)\<close> raises \<^verbatim>\<open>ValueError\<close> on a negative argument.
\<close>

record ramp_cfg =
  total_cpus :: int
  ramp_every :: rat
  no_affinity :: bool
  available :: "nat list option"

fun ramp_loop :: "nat \<Rightarrow> (nat \<Rightarrow> rat) \<Rightarrow> rat \<Rightarrow> ramp_cfg \<Rightarrow> nat \<Rightarrow> nat \<Rightarrow> event list \<Rightarrow>
    (py_exn option \<times> nat \<times> event list) option" where
  "ramp_loop 0 clock stop_at r k started tr =
     (if clock k < stop_at then None else Some (None, started, tr))"
| "ramp_loop (Suc fuel) clock stop_at r k started tr =
     (if clock k < stop_at
      then (if int started < total_cpus r
            then (let tr' = tr @ [Start (CpuWorker started),
                                  Log (CpuStarted (started + 1) (total_cpus r)
                                         (pin_for (no_affinity r) (available r) started))]
                  in if ramp_every r < 0 then Some (Some ValueError, Suc started, tr')
                     else ramp_loop fuel clock stop_at r (Suc k) (Suc started)
                            (tr' @ [Sleep (ramp_every r)]))
            else ramp_loop fuel clock stop_at r (Suc k) started (tr @ [Sleep (1 / 2)]))
      else Some (None, started, tr))"

definition run_cpu_ramp :: "nat \<Rightarrow> (nat \<Rightarrow> rat) \<Rightarrow> ramp_cfg \<Rightarrow> int \<Rightarrow> (event list \<times> py_exn option) option" where
  "run_cpu_ramp fuel clock r duration =
     (let stop_at = clock 0 + of_int (max 1 duration) in
      case ramp_loop fuel clock stop_at r 1 0 [] of
        None \<Rightarrow> None
      | Some (Some e, started, tr) \<Rightarrow> Some (tr, Some e)
      | Some (None, started, tr) \<Rightarrow>
          Some (tr @ map (\<lambda>i. Join (CpuWorker i) (Some 1)) [0..<started], None))"

text \<open>What a trace says about workers.\<close>

definition started_workers :: "event list \<Rightarrow> nat set" where
  "started_workers tr = {i. Start (CpuWorker i) \<in> set tr}"

definition joins :: "event list \<Rightarrow> (proc \<times> rat option) list" where
  "joins tr = concat (map (\<lambda>e. case e of Join q t \<Rightarrow> [(q, t)] | _ \<Rightarrow> []) tr)"

definition ticking :: "nat \<Rightarrow> rat" where
  "ticking k = of_nat k"

text \<open>The two events of starting worker number \<open>started\<close> in the ramp.\<close>

definition spawn :: "ramp_cfg \<Rightarrow> nat \<Rightarrow> event list" where
  "spawn r started = [Start (CpuWorker started),
      Log (CpuStarted (started + 1) (total_cpus r) (pin_for (no_affinity r) (available r) started))]"

section \<open>Binary64 rounding\<close>

lemma quotient_of_pos:
  assumes "0 < a" "quotient_of a = (p, q)"
  shows "0 < p" "0 < q" "a = of_int p / of_int q"
proof -
  show q: "0 < q" using assms(2) by (rule quotient_of_denom_pos)
  show a: "a = of_int p / of_int q" using assms(2) by (rule quotient_of_div)
  from assms(1) a q show "0 < p" by (simp add: zero_less_divide_iff)
qed

lemma powi_bitlen:
  assumes "0 < (p::int)"
  shows "2 powi (bitlen p - 1) \<le> (of_int p :: rat)" "(of_int p :: rat) < 2 powi (bitlen p)"
proof -
  from bitlen_bounds[OF assms] have b: "2 ^ nat (bitlen p - 1) \<le> p" "p < 2 ^ nat (bitlen p)" by simp_all
  have ge: "1 \<le> bitlen p" using assms by (simp add: bitlen_alt_def)
  have "(of_int (2 ^ nat (bitlen p - 1)) :: rat) \<le> of_int p" using b(1) by (simp only: of_int_le_iff)
  then show "2 powi (bitlen p - 1) \<le> (of_int p :: rat)" using ge by (simp add: power_int_def)
  have "(of_int p :: rat) < of_int (2 ^ nat (bitlen p))" using b(2) by (simp only: of_int_less_iff)
  then show "(of_int p :: rat) < 2 powi (bitlen p)" using ge by (simp add: power_int_def)
qed

lemma binade_bounds:
  assumes "0 < a"
  shows "2 powi (binade a) \<le> a \<and> a < 2 powi (binade a + 1)"
proof -
  obtain p q where pq: "quotient_of a = (p, q)" by (cases "quotient_of a")
  note f = quotient_of_pos[OF assms pq]
  let ?e = "bitlen p - bitlen q"
  note bp = powi_bitlen[OF f(1)] and bq = powi_bitlen[OF f(2)]
  have qpos: "0 < (of_int q :: rat)" using f(2) by simp
  have up: "a < 2 powi (?e + 1)"
  proof -
    have "a * of_int q = of_int p" using f(3) qpos by simp
    also have "\<dots> < 2 powi (bitlen p)" by (rule bp(2))
    also have "\<dots> = 2 powi (?e + 1) * 2 powi (bitlen q - 1)"
      by (simp add: power_int_add[symmetric])
    also have "\<dots> \<le> 2 powi (?e + 1) * of_int q"
      by (rule mult_left_mono[OF bq(1)]) simp
    finally show ?thesis using qpos by simp
  qed
  have lo: "2 powi (?e - 1) \<le> a"
  proof -
    have "(2::rat) powi (?e - 1) * of_int q \<le> 2 powi (?e - 1) * 2 powi (bitlen q)"
      by (rule mult_left_mono[OF less_imp_le[OF bq(2)]]) simp
    also have "\<dots> = 2 powi (bitlen p - 1)" by (simp add: power_int_add[symmetric])
    also have "\<dots> \<le> of_int p" by (rule bp(1))
    also have "\<dots> = a * of_int q" using f(3) qpos by simp
    finally show ?thesis using qpos by simp
  qed
  show ?thesis
  proof (cases "2 powi ?e \<le> a")
    case True
    then have "binade a = ?e" by (simp add: binade_def pq)
    with True up show ?thesis by simp
  next
    case False
    then have "binade a = ?e - 1" by (simp add: binade_def pq)
    with False lo show ?thesis by simp
  qed
qed

lemma powi_less_exp:
  fixes e e' :: int
  assumes "(2::rat) powi e \<le> a" "a < 2 powi (e' + 1)"
  shows "e \<le> e'"
proof (rule ccontr)
  assume "\<not> e \<le> e'"
  then have "e' + 1 \<le> e" by simp
  then have "(2::rat) powi (e' + 1) \<le> 2 powi e" by (intro power_int_increasing) simp_all
  with assms show False by simp
qed

lemma binade_unique:
  assumes "0 < a" "2 powi e \<le> a" "a < 2 powi (e + 1)"
  shows "binade a = e"
proof -
  from binade_bounds[OF assms(1)] have b: "2 powi (binade a) \<le> a" "a < 2 powi (binade a + 1)"
    by simp_all
  from powi_less_exp[OF assms(2) b(2)] powi_less_exp[OF b(1) assms(3)] show ?thesis by simp
qed

lemma round_half_even_int [simp]: "round_half_even (of_int k) = k"
  by (simp add: round_half_even_def)

lemma representable_zero [simp]: "representable 0"
  by (simp add: representable_def round_double_def)

lemma round_double_pos:
  assumes "0 < a"
  shows "round_double a =
    (if overflow_bound \<le> of_int (round_half_even (a / 2 powi (max (binade a) (- 1022) - 52))) *
          2 powi (max (binade a) (- 1022) - 52)
     then Infinity False
     else Finite (of_int (round_half_even (a / 2 powi (max (binade a) (- 1022) - 52))) *
          2 powi (max (binade a) (- 1022) - 52)))"
proof -
  from assms have "a \<noteq> 0" "\<not> a < 0" "\<bar>a\<bar> = a" by simp_all
  then show ?thesis by (simp add: round_double_def Let_def)
qed

lemma representable_grid:
  assumes "0 < a" "a = of_int M * 2 powi (max (binade a) (- 1022) - 52)" "a < overflow_bound"
  shows "representable a"
proof -
  let ?ulp = "(2::rat) powi (max (binade a) (- 1022) - 52)"
  have u: "0 < ?ulp" by simp
  have "a / ?ulp = of_int M" using assms(2) u by (simp add: field_simps)
  then have "of_int (round_half_even (a / ?ulp)) * ?ulp = a" using assms(2) by simp
  then show ?thesis
    using assms(3) unfolding representable_def round_double_pos[OF assms(1)] by simp
qed

lemma representable_posD:
  assumes "0 < a" "representable a"
  shows "\<exists>M. a = of_int M * 2 powi (max (binade a) (- 1022) - 52) \<and> a < overflow_bound"
proof -
  let ?ulp = "(2::rat) powi (max (binade a) (- 1022) - 52)"
  let ?r = "of_int (round_half_even (a / ?ulp)) * ?ulp"
  from assms(2) have "(if overflow_bound \<le> ?r then Infinity False else Finite ?r) = Finite a"
    unfolding representable_def round_double_pos[OF assms(1)] .
  then have "\<not> overflow_bound \<le> ?r \<and> ?r = a" by (cases "overflow_bound \<le> ?r") simp_all
  then have "a = of_int (round_half_even (a / ?ulp)) * ?ulp \<and> a < overflow_bound" by simp
  then show ?thesis by (rule exI[of _ "round_half_even (a / ?ulp)"])
qed

lemma binade_scale:
  assumes "0 < a"
  shows "binade (a * 2 ^ k) = binade a + int k"
proof (rule binade_unique)
  from binade_bounds[OF assms] have b: "2 powi (binade a) \<le> a" "a < 2 powi (binade a + 1)"
    by simp_all
  show "0 < a * 2 ^ k" using assms by simp
  have "(2::rat) powi (binade a + int k) = 2 powi (binade a) * 2 ^ k"
    by (simp add: power_int_add)
  also have "\<dots> \<le> a * 2 ^ k" using b(1) by simp
  finally show "2 powi (binade a + int k) \<le> a * 2 ^ k" .
  have "a * 2 ^ k < 2 powi (binade a + 1) * 2 ^ k" using b(2) by simp
  also have "\<dots> = 2 powi (binade a + int k + 1)" by (simp add: power_int_add)
  finally show "a * 2 ^ k < 2 powi (binade a + int k + 1)" .
qed

lemma representable_scale:
  assumes "0 \<le> a" "representable a" "a * 2 ^ k < overflow_bound"
  shows "representable (a * 2 ^ k)"
proof (cases "a = 0")
  case True
  then show ?thesis by simp
next
  case False
  with assms(1) have pos: "0 < a" by simp
  from representable_posD[OF pos assms(2)] obtain M where
    M: "a = of_int M * 2 powi (max (binade a) (- 1022) - 52)" by blast
  let ?e = "max (binade a) (- 1022)" and ?e' = "max (binade a + int k) (- 1022)"
  define d where "d = nat (?e + int k - ?e')"
  have d: "int d = ?e + int k - ?e'" unfolding d_def by simp
  have s1: "(2::rat) powi (?e - 52) * 2 ^ k = 2 powi (?e - 52 + int k)"
    by (simp add: power_int_add)
  have "?e - 52 + int k = int d + (?e' - 52)" using d by simp
  then have s2: "(2::rat) powi (?e - 52 + int k) = 2 powi (int d + (?e' - 52))"
    by (rule arg_cong)
  have s3: "(2::rat) powi (int d + (?e' - 52)) = 2 ^ d * 2 powi (?e' - 52)"
    by (simp add: power_int_add)
  have "a * 2 ^ k = of_int M * (2 powi (?e - 52) * 2 ^ k)" using M by simp
  also have "\<dots> = of_int M * (2 ^ d * 2 powi (?e' - 52))" by (simp only: s1 s2 s3)
  finally have fin: "a * 2 ^ k = of_int (M * 2 ^ d) * 2 powi (?e' - 52)" by simp
  have bs: "binade (a * 2 ^ k) = binade a + int k" by (rule binade_scale[OF pos])
  have "a * 2 ^ k = of_int (M * 2 ^ d) * 2 powi (max (binade (a * 2 ^ k)) (- 1022) - 52)"
    unfolding bs by (rule fin)
  moreover have "0 < a * 2 ^ k" using pos by simp
  ultimately show ?thesis using assms(3) by (intro representable_grid)
qed

lemma representable_int:
  assumes "0 \<le> M" "M < 2 ^ 53"
  shows "representable (of_int M)"
proof (cases "M = 0")
  case True
  then show ?thesis by simp
next
  case False
  with assms(1) have pos: "0 < (of_int M :: rat)" by simp
  let ?b = "binade (of_int M)"
  from binade_bounds[OF pos] have b: "2 powi ?b \<le> (of_int M :: rat)" "(of_int M :: rat) < 2 powi (?b + 1)"
    by simp_all
  have "(of_int M :: rat) < of_int (2 ^ 53)" using assms(2) by (simp only: of_int_less_iff)
  then have lt: "(of_int M :: rat) < 2 powi (52 + 1)" by simp
  have "(2::rat) powi 0 \<le> of_int M" using False assms(1) by simp
  from powi_less_exp[OF this b(2)] powi_less_exp[OF b(1) lt] have rng: "0 \<le> ?b" "?b \<le> 52"
    by simp_all
  define d where "d = nat (52 - ?b)"
  have d: "int d = 52 - ?b" using rng by (simp add: d_def)
  have "(2::rat) powi (int d) * 2 powi (?b - 52) = 1" unfolding d by (simp add: power_int_add[symmetric])
  then have "(of_int M :: rat) = of_int (M * 2 ^ d) * 2 powi (?b - 52)" by simp
  moreover have "max ?b (- 1022) = ?b" using rng by simp
  ultimately have "(of_int M :: rat) = of_int (M * 2 ^ d) * 2 powi (max ?b (- 1022) - 52)" by simp
  moreover have "(of_int M :: rat) < overflow_bound"
  proof -
    have "(2::rat) powi (52 + 1) \<le> overflow_bound"
      unfolding overflow_bound_def by (intro power_int_increasing) simp_all
    with lt show ?thesis by simp
  qed
  ultimately show ?thesis using pos by (intro representable_grid)
qed

subsection \<open>Which integers \<^verbatim>\<open>float\<close> converts\<close>

lemma round_half_even_le: "y \<le> of_int k \<Longrightarrow> round_half_even y \<le> k"
proof -
  assume y: "y \<le> of_int k"
  then have f: "\<lfloor>y\<rfloor> \<le> k" by (simp add: floor_le_iff)
  show ?thesis
  proof (cases "\<lfloor>y\<rfloor> = k")
    case True
    with y have "y - of_int \<lfloor>y\<rfloor> \<le> 0" by simp
    then have "y - of_int \<lfloor>y\<rfloor> < 1 / 2" by linarith
    with True show ?thesis by (simp add: round_half_even_def Let_def)
  next
    case False
    with f have "\<lfloor>y\<rfloor> + 1 \<le> k" by simp
    then show ?thesis by (simp add: round_half_even_def Let_def)
  qed
qed

lemma round_half_even_ge: "of_int k \<le> y \<Longrightarrow> k \<le> round_half_even y"
proof -
  assume "of_int k \<le> y"
  then have "k \<le> \<lfloor>y\<rfloor>" by (simp add: le_floor_iff)
  then show ?thesis by (simp add: round_half_even_def Let_def)
qed

lemma round_half_even_below:
  assumes "y < of_int k - 1 / 2"
  shows "round_half_even y \<le> k - 1"
proof -
  from assms have "y < of_int k" by linarith
  then have f: "\<lfloor>y\<rfloor> \<le> k - 1" by (simp add: floor_less_iff)
  show ?thesis
  proof (cases "\<lfloor>y\<rfloor> = k - 1")
    case True
    with assms have "y - of_int \<lfloor>y\<rfloor> < 1 / 2" by simp
    with True show ?thesis by (simp add: round_half_even_def Let_def)
  next
    case False
    with f have "\<lfloor>y\<rfloor> + 1 \<le> k - 1" by simp
    then show ?thesis by (simp add: round_half_even_def Let_def)
  qed
qed

lemma round_half_even_tie:
  assumes "of_int k - 1 / 2 \<le> y" "even k"
  shows "k \<le> round_half_even y"
proof -
  from assms(1) have "of_int (k - 1) \<le> y" by simp
  then have f: "k - 1 \<le> \<lfloor>y\<rfloor>" by (simp only: le_floor_iff)
  show ?thesis
  proof (cases "\<lfloor>y\<rfloor> = k - 1")
    case True
    with assms(1) have d: "1 / 2 \<le> y - of_int \<lfloor>y\<rfloor>" by simp
    from True assms(2) have "odd \<lfloor>y\<rfloor>" by simp
    with d True show ?thesis by (simp add: round_half_even_def Let_def)
  next
    case False
    with f have "k \<le> \<lfloor>y\<rfloor>" by simp
    then show ?thesis by (simp add: round_half_even_def Let_def)
  qed
qed

lemma powi_split: "(2::rat) powi (k + j) = 2 powi k * 2 powi j"
  by (simp add: power_int_add)

lemma powi_mono: "k \<le> j \<Longrightarrow> (2::rat) powi k \<le> 2 powi j"
  by (intro power_int_increasing) simp_all

lemma powi_53: "(2::rat) powi (e + 1) = 2 powi 53 * 2 powi (e - 52)"
proof -
  have "e + 1 = 53 + (e - 52)" by simp
  then have "(2::rat) powi (e + 1) = 2 powi (53 + (e - 52))" by (rule arg_cong)
  also have "\<dots> = 2 powi 53 * 2 powi (e - 52)" by (rule powi_split)
  finally show ?thesis .
qed

lemma powi_52: "(2::rat) powi e = 2 powi 52 * 2 powi (e - 52)"
proof -
  have "e = 52 + (e - 52)" by simp
  then have "(2::rat) powi e = 2 powi (52 + (e - 52))" by (rule arg_cong)
  also have "\<dots> = 2 powi 52 * 2 powi (e - 52)" by (rule powi_split)
  finally show ?thesis .
qed

lemma powi_half: "(2::rat) powi (e - 53) = (1 / 2) * 2 powi (e - 52)"
proof -
  have "e - 53 = - 1 + (e - 52)" by simp
  then have "(2::rat) powi (e - 53) = 2 powi (- 1 + (e - 52))" by (rule arg_cong)
  also have "\<dots> = 2 powi (- 1) * 2 powi (e - 52)" by (rule powi_split)
  finally show ?thesis by simp
qed

lemma powi_double: "(2::rat) powi (e + 1) = 2 powi e + 2 powi e"
proof -
  have "(2::rat) powi (e + 1) = 2 powi e * 2 powi 1" by (rule powi_split)
  then show ?thesis by simp
qed

text \<open>
  Rounding to a grid of spacing \<open>2\<^sup>e\<^sup>-\<^sup>5\<^sup>2\<close>, where \<open>e\<close> is the binade or the least exponent
  \<open>emin\<close>: the result stays below \<open>2\<^sup>k\<close> when \<open>e < k\<close>, and it reaches \<open>2\<^sup>E\<^sup>+\<^sup>1\<close> exactly from
  \<open>2\<^sup>E\<^sup>+\<^sup>1 - 2\<^sup>E\<^sup>-\<^sup>5\<^sup>3\<close> on.
\<close>

lemma round_below:
  fixes a :: rat
  assumes a: "0 < a" and k: "max (binade a) emin + 1 \<le> k"
  shows "of_int (round_half_even (a / 2 powi (max (binade a) emin - 52))) *
           2 powi (max (binade a) emin - 52) \<le> (2::rat) powi k"
proof -
  let ?e = "max (binade a) emin"
  let ?u = "(2::rat) powi (?e - 52)"
  have u: "0 < ?u" by simp
  from binade_bounds[OF a] have "a < 2 powi (binade a + 1)" by simp
  also have "\<dots> \<le> 2 powi (?e + 1)" by (rule powi_mono) simp
  also have "\<dots> = 2 powi 53 * ?u" by (rule powi_53)
  finally have "a / ?u < 2 powi 53" using u by (simp add: pos_divide_less_eq)
  then have "a / ?u \<le> of_int (2 ^ 53)" by simp
  then have "round_half_even (a / ?u) \<le> 2 ^ 53" by (rule round_half_even_le)
  then have "(of_int (round_half_even (a / ?u)) :: rat) \<le> of_int (2 ^ 53)"
    by (simp only: of_int_le_iff)
  then have "of_int (round_half_even (a / ?u)) * ?u \<le> of_int (2 ^ 53) * ?u"
    using u by (simp only: mult_le_cancel_right_pos)
  also have "(of_int (2 ^ 53) :: rat) = 2 powi 53" by simp
  also have "(2::rat) powi 53 * ?u = 2 powi (?e + 1)" by (rule powi_53[symmetric])
  also have "(2::rat) powi (?e + 1) \<le> 2 powi k" using k by (rule powi_mono)
  finally show ?thesis .
qed

lemma round_overflow:
  fixes a :: rat and E emin :: int
  assumes a: "0 < a" and E: "emin \<le> E"
  shows "(2::rat) powi (E + 1) \<le> of_int (round_half_even (a / 2 powi (max (binade a) emin - 52))) *
           2 powi (max (binade a) emin - 52)
         \<longleftrightarrow> 2 powi (E + 1) - 2 powi (E - 53) \<le> a"
proof
  let ?b = "binade a"
  let ?e = "max ?b emin"
  let ?u = "(2::rat) powi (?e - 52)"
  let ?m = "round_half_even (a / ?u)"
  from binade_bounds[OF a] have b: "2 powi ?b \<le> a" "a < 2 powi (?b + 1)" by simp_all
  have u: "0 < ?u" by simp
  have top: "(2::rat) powi (E + 1) = 2 powi E + 2 powi E" by (rule powi_double)
  {
    assume T: "2 powi (E + 1) - 2 powi (E - 53) \<le> a"
    have "(2::rat) powi (E - 53) \<le> 2 powi E" by (rule powi_mono) simp
    with T top have "2 powi E \<le> a" by linarith
    from powi_less_exp[OF this b(2)] have Eb: "E \<le> ?b" .
    with E have e: "?e = ?b" by simp
    show "2 powi (E + 1) \<le> of_int ?m * ?u"
    proof (cases "?b = E")
      case True
      with e have eE: "?e = E" by simp
      have s1: "(2::rat) powi (E + 1) = 2 powi 53 * 2 powi (E - 52)" by (rule powi_53)
      have s2: "(2::rat) powi (E - 53) = (1 / 2) * 2 powi (E - 52)" by (rule powi_half)
      from T have "(2 powi 53 - 1 / 2) * 2 powi (E - 52) \<le> a"
        unfolding s1 s2 by (simp add: algebra_simps)
      then have "2 powi 53 - 1 / 2 \<le> a / 2 powi (E - 52)"
        by (simp add: pos_le_divide_eq)
      then have "of_int (2 ^ 53) - 1 / 2 \<le> a / ?u" unfolding eE by simp
      then have "2 ^ 53 \<le> ?m" by (rule round_half_even_tie) simp
      then have "(of_int (2 ^ 53) :: rat) \<le> of_int ?m" by (simp only: of_int_le_iff)
      then have A: "of_int (2 ^ 53) * ?u \<le> of_int ?m * ?u"
        using u by (simp only: mult_le_cancel_right_pos)
      have B: "(of_int (2 ^ 53) :: rat) * ?u = 2 powi (E + 1)"
        unfolding eE s1 by simp
      from A show ?thesis unfolding B .
    next
      case False
      with Eb have Eb': "E + 1 \<le> ?b" by simp
      have s: "(2::rat) powi ?b = 2 powi 52 * 2 powi (?b - 52)" by (rule powi_52)
      from b(1) have "2 powi 52 * 2 powi (?b - 52) \<le> a" unfolding s .
      then have "2 powi 52 \<le> a / 2 powi (?b - 52)" by (simp add: pos_le_divide_eq)
      then have "of_int (2 ^ 52) \<le> a / ?u" unfolding e by simp
      then have "2 ^ 52 \<le> ?m" by (rule round_half_even_ge)
      then have "(of_int (2 ^ 52) :: rat) \<le> of_int ?m" by (simp only: of_int_le_iff)
      then have A: "of_int (2 ^ 52) * ?u \<le> of_int ?m * ?u"
        using u by (simp only: mult_le_cancel_right_pos)
      have B: "(of_int (2 ^ 52) :: rat) * ?u = 2 powi ?b" unfolding e s by simp
      have "(2::rat) powi (E + 1) \<le> 2 powi ?b" using Eb' by (rule powi_mono)
      also from A have "2 powi ?b \<le> of_int ?m * ?u" unfolding B .
      finally show ?thesis .
    qed
  }
  {
    assume R: "2 powi (E + 1) \<le> of_int ?m * ?u"
    show "2 powi (E + 1) - 2 powi (E - 53) \<le> a"
    proof (rule ccontr)
      assume "\<not> 2 powi (E + 1) - 2 powi (E - 53) \<le> a"
      then have lt: "a < 2 powi (E + 1) - 2 powi (E - 53)" by simp
      have "(0::rat) < 2 powi (E - 53)" by simp
      with lt have "a < 2 powi (E + 1)" by linarith
      from powi_less_exp[OF b(1) this] have bE: "?b \<le> E" .
      with E have eE: "?e \<le> E" by simp
      show False
      proof (cases "?e = E")
        case True
        have s1: "(2::rat) powi (E + 1) = 2 powi 53 * 2 powi (E - 52)" by (rule powi_53)
        have s2: "(2::rat) powi (E - 53) = (1 / 2) * 2 powi (E - 52)" by (rule powi_half)
        from lt have "a < (2 powi 53 - 1 / 2) * 2 powi (E - 52)"
          unfolding s1 s2 by (simp add: algebra_simps)
        then have "a / 2 powi (E - 52) < 2 powi 53 - 1 / 2"
          by (simp add: pos_divide_less_eq)
        then have "a / ?u < of_int (2 ^ 53) - 1 / 2" unfolding True by simp
        then have "?m \<le> 2 ^ 53 - 1" by (rule round_half_even_below)
        then have "(of_int ?m :: rat) \<le> of_int (2 ^ 53 - 1)" by (simp only: of_int_le_iff)
        then have "of_int ?m * ?u \<le> of_int (2 ^ 53 - 1) * ?u"
          using u by (simp only: mult_le_cancel_right_pos)
        also have "(of_int (2 ^ 53 - 1) :: rat) * ?u = 2 powi (E + 1) - 2 powi (E - 52)"
          unfolding True s1 by (simp add: algebra_simps)
        also have "\<dots> < 2 powi (E + 1)" by simp
        finally show False using R by simp
      next
        case False
        with eE have "?e + 1 \<le> E" by linarith
        from round_below[OF a this] have "of_int ?m * ?u \<le> 2 powi E" .
        also have "(2::rat) powi E < 2 powi (E + 1)" using top by simp
        finally show False using R by simp
      qed
    qed
  }
qed

lemma round_double_nonzero:
  assumes "x \<noteq> 0"
  shows "round_double x =
    (if overflow_bound \<le> of_int (round_half_even (\<bar>x\<bar> / 2 powi (max (binade \<bar>x\<bar>) (- 1022) - 52))) *
          2 powi (max (binade \<bar>x\<bar>) (- 1022) - 52)
     then Infinity (x < 0)
     else Finite (if x < 0
       then - (of_int (round_half_even (\<bar>x\<bar> / 2 powi (max (binade \<bar>x\<bar>) (- 1022) - 52))) *
          2 powi (max (binade \<bar>x\<bar>) (- 1022) - 52))
       else of_int (round_half_even (\<bar>x\<bar> / 2 powi (max (binade \<bar>x\<bar>) (- 1022) - 52))) *
          2 powi (max (binade \<bar>x\<bar>) (- 1022) - 52)))"
  using assms by (simp add: round_double_def Let_def)

lemma round_double_overflows:
  assumes "x \<noteq> 0"
  shows "(\<exists>s. round_double x = Infinity s) \<longleftrightarrow> 2 powi 1024 - 2 powi 970 \<le> \<bar>x\<bar>"
proof -
  from assms have a: "0 < \<bar>x\<bar>" by simp
  have "(- 1022 :: int) \<le> 1023" by simp
  note r = round_overflow[OF a this]
  have e1: "(1023::int) + 1 = 1024" "(1023::int) - 53 = 970" by simp_all
  from r
  have "overflow_bound \<le> of_int (round_half_even (\<bar>x\<bar> / 2 powi (max (binade \<bar>x\<bar>) (- 1022) - 52))) *
          2 powi (max (binade \<bar>x\<bar>) (- 1022) - 52) \<longleftrightarrow> 2 powi 1024 - 2 powi 970 \<le> \<bar>x\<bar>"
    unfolding overflow_bound_def e1 .
  then show ?thesis unfolding round_double_nonzero[OF assms] by (simp split: if_splits)
qed

lemma float_limit_rat: "(of_int float_limit :: rat) = 2 powi 1024 - 2 powi 970"
  unfolding float_limit_def by (simp only: of_int_diff of_int_power of_int_numeral power_int_def)
     (simp only: nat_numeral if_True zero_le_numeral)

lemma float_limit_large: "2 ^ 1023 < float_limit"
proof -
  have "(2::int) ^ 970 < 2 ^ 1023" by (rule power_strict_increasing) simp_all
  moreover have "(2::int) ^ 1024 = 2 ^ 1023 + 2 ^ 1023"
    using power_Suc[of "2::int" 1023] by (simp only: mult_2 numeral_eq_Suc[symmetric]) simp
  ultimately show ?thesis unfolding float_limit_def by linarith
qed

lemma float_of_int_overflows:
  "float_of_int n = Inl OverflowError \<longleftrightarrow> float_limit \<le> \<bar>n\<bar>"
proof (cases "n = 0")
  case True
  have "(0::int) < 2 ^ 1023" by simp
  with float_limit_large have "0 < float_limit" by linarith
  with True show ?thesis by (simp add: float_of_int_def round_double_def)
next
  case False
  then have nz: "(of_int n :: rat) \<noteq> 0" by simp
  have "float_of_int n = Inl OverflowError \<longleftrightarrow> (\<exists>s. round_double (of_int n) = Infinity s)"
    by (auto simp: float_of_int_def split: pyfloat.splits)
  also have "\<dots> \<longleftrightarrow> (of_int float_limit :: rat) \<le> \<bar>of_int n\<bar>"
    unfolding round_double_overflows[OF nz] float_limit_rat ..
  also have "(\<bar>of_int n\<bar> :: rat) = of_int \<bar>n\<bar>" by simp
  also have "(of_int float_limit :: rat) \<le> of_int \<bar>n\<bar> \<longleftrightarrow> float_limit \<le> \<bar>n\<bar>"
    by (rule of_int_le_iff)
  finally show ?thesis .
qed

lemma human_iff: "human n = None \<longleftrightarrow> \<bar>n\<bar> < float_limit"
proof -
  have "human n = None \<longleftrightarrow> float_of_int n \<noteq> Inl OverflowError"
    by (auto simp: human_def float_of_int_def split: sum.splits pyfloat.splits)
  then show ?thesis unfolding float_of_int_overflows by auto
qed

lemma human_code [code]:
  "human n = (if \<bar>n\<bar> < float_limit then None else Some OverflowError)"
proof (cases "\<bar>n\<bar> < float_limit")
  case True
  then show ?thesis by (simp add: human_iff)
next
  case False
  then have "human n \<noteq> None" by (simp add: human_iff)
  moreover have "human n = None \<or> human n = Some OverflowError"
    by (auto simp: human_def float_of_int_def split: sum.splits pyfloat.splits)
  ultimately show ?thesis using False by auto
qed

lemma human_small: "\<bar>n\<bar> < 2 ^ 63 \<Longrightarrow> human n = None"
proof -
  assume "\<bar>n\<bar> < 2 ^ 63"
  moreover have "(2::int) ^ 63 \<le> 2 ^ 1023" by (rule power_increasing) simp_all
  ultimately have "\<bar>n\<bar> < float_limit" using float_limit_large by linarith
  then show ?thesis by (simp add: human_iff)
qed

lemma human_between:
  assumes "human hi = None" "0 \<le> n" "n \<le> hi"
  shows "human n = None"
  using assms unfolding human_iff by linarith

section \<open>Properties of the allocation loops\<close>

lemmas body_defs = read_mem_current_def read_cgroup_limits_def emit_def bytearray_def log_line_def Let_def

lemmas body_splits = if_splits alloc_result.splits sum.splits option.splits

lemma while_allocating_invariant:
  assumes "while_allocating fuel want body st = Some (x, st')"
    and "I st"
    and "\<And>s s'. I s \<Longrightarrow> allocated s < want \<Longrightarrow> body s = Continue s' \<Longrightarrow> I s'"
    and "\<And>s s' e. I s \<Longrightarrow> allocated s < want \<Longrightarrow> body s = Break e s' \<Longrightarrow> I s'"
  shows "I st'"
  using assms(1,2)
proof (induction fuel arbitrary: st)
  case 0
  then show ?case by (auto split: if_splits)
next
  case (Suc fuel)
  show ?case
  proof (cases "allocated st < want")
    case False
    with Suc.prems show ?thesis by simp
  next
    case True
    show ?thesis
    proof (cases "body st")
      case (Continue s')
      with True Suc.prems have "while_allocating fuel want body s' = Some (x, st')" by simp
      moreover have "I s'" using assms(3)[OF Suc.prems(2) True Continue] .
      ultimately show ?thesis by (rule Suc.IH)
    next
      case (Break e s')
      with True Suc.prems have "st' = s'" by simp
      with assms(4)[OF Suc.prems(2) True Break] show ?thesis by simp
    qed
  qed
qed

lemma while_allocating_rule:
  assumes "while_allocating fuel want body st = Some (x, st')"
    and "I st"
    and "\<And>s s'. I s \<Longrightarrow> allocated s < want \<Longrightarrow> body s = Continue s' \<Longrightarrow> I s'"
    and "\<And>s s' e. I s \<Longrightarrow> allocated s < want \<Longrightarrow> body s = Break e s' \<Longrightarrow> Q e s'"
    and "\<And>s. I s \<Longrightarrow> \<not> allocated s < want \<Longrightarrow> Q Completed s"
  shows "Q x st'"
  using assms(1,2)
proof (induction fuel arbitrary: st)
  case 0
  then show ?case using assms(5) by (auto split: if_splits)
next
  case (Suc fuel)
  show ?case
  proof (cases "allocated st < want")
    case False
    with Suc.prems assms(5) show ?thesis by auto
  next
    case True
    show ?thesis
    proof (cases "body st")
      case (Continue s')
      with True Suc.prems have "while_allocating fuel want body s' = Some (x, st')" by simp
      moreover have "I s'" using assms(3)[OF Suc.prems(2) True Continue] .
      ultimately show ?thesis by (rule Suc.IH)
    next
      case (Break e s')
      with True Suc.prems have "st' = s'" "x = e" by simp_all
      with assms(4)[OF Suc.prems(2) True Break] show ?thesis by simp
    qed
  qed
qed

lemma mem_burst_body_appends:
  "mem_burst_body E c limit s = Continue s' \<Longrightarrow> appends c s s'"
  by (auto simp: mem_burst_body_def appends_def next_block_def body_defs
      split: body_splits)

lemma mem_burst_body_keeps:
  "mem_burst_body E c limit s = Break x s' \<Longrightarrow>
     keeps s s' \<or> (appends c s s' \<and> x = Raised OverflowError)"
  by (auto simp: mem_burst_body_def keeps_def appends_def next_block_def body_defs
      split: body_splits)

lemma allocate_slow_body_appends:
  "allocate_slow_body E c p s = Continue s' \<Longrightarrow> appends c s s'"
  by (auto simp: allocate_slow_body_def appends_def next_block_def body_defs
      split: body_splits)

lemma allocate_slow_body_keeps:
  "allocate_slow_body E c p s = Break x s' \<Longrightarrow>
     keeps s s' \<or> (appends c s s' \<and> (\<exists>e. x = Raised e))"
  by (auto simp: allocate_slow_body_def keeps_def appends_def next_block_def body_defs
      split: body_splits)

text \<open>
  A run either stops at its header line, or enters the loop and ends with the locals that
  the loop left.
\<close>

lemma mem_burst_run_loop:
  assumes "mem_burst_run fuel E c w = Some (x, st)"
  shows "(blocks st = [] \<and> allocated st = 0) \<or>
    (\<exists>x' s. while_allocating fuel (want_bytes c) (mem_burst_body E c (lim_src E (lim_reads w)))
            (mem_burst_entry E c w) = Some (x', s) \<and> keeps s st)"
  using assms
  by (auto simp: mem_burst_run_def mem_burst_entry_def read_cgroup_limits_def log_line_def
        Let_def keeps_def emit_def
      split: option.splits prod.splits loop_exit.splits sum.splits if_splits)

lemma allocate_slow_run_loop:
  assumes "allocate_slow_run fuel E c p w = Some (x, st)"
  shows "(blocks st = [] \<and> allocated st = 0) \<or>
    (\<exists>x' s. while_allocating fuel (want_bytes c) (allocate_slow_body E c p)
            (allocate_slow_entry c p w) = Some (x', s) \<and> keeps s st)"
  using assms
  by (auto simp: allocate_slow_run_def allocate_slow_entry_def log_line_def Let_def keeps_def emit_def
      split: option.splits prod.splits loop_exit.splits sum.splits if_splits)

lemma returned_Inr:
  "returned r = Some (Inr bs) \<Longrightarrow> \<exists>x st. r = Some (x, st) \<and> blocks st = bs"
  by (auto simp: returned_def split: option.splits prod.splits loop_exit.splits)

subsection \<open>The retained total\<close>

lemma sized_appends:
  assumes "sized c s" "allocated s < want_bytes c" "appends c s s'"
  shows "sized c s'"
proof -
  let ?b = "next_block c s"
  have bs: "blocks s' = blocks s @ [?b]" and al: "allocated s' = allocated s + ?b"
    using assms(3) by (simp_all add: appends_def)
  have sum: "allocated s = sum_list (blocks s)" using assms(1) by (simp add: sized_def)
  have "allocated s' = sum_list (blocks s')" using bs al sum by simp
  moreover have "allocated s' \<le> max 0 (want_bytes c)"
    using al assms(2) by (simp add: next_block_def)
  moreover have "blocks s' ! i = min (block_bytes c) (want_bytes c - sum_list (take i (blocks s')))"
    if "i < length (blocks s')" for i
  proof (cases "i < length (blocks s)")
    case True
    then show ?thesis using assms(1) bs by (simp add: sized_def nth_append)
  next
    case False
    with that bs have "i = length (blocks s)" by simp
    then show ?thesis using bs sum by (simp add: next_block_def)
  qed
  ultimately show ?thesis by (simp add: sized_def)
qed

lemma sized_keeps: "sized c s \<Longrightarrow> keeps s s' \<Longrightarrow> sized c s'"
  by (simp add: sized_def keeps_def)

lemma mem_burst_run_sized:
  assumes "mem_burst_run fuel E c w = Some (x, st)"
  shows "sized c st"
proof -
  from mem_burst_run_loop[OF assms] consider "blocks st = [] \<and> allocated st = 0" |
    x' s where "while_allocating fuel (want_bytes c) (mem_burst_body E c (lim_src E (lim_reads w)))
            (mem_burst_entry E c w) = Some (x', s)" "keeps s st"
    by blast
  then show ?thesis
  proof cases
    case 1
    then show ?thesis by (simp add: sized_def)
  next
    case (2 x' s)
    note run = 2(1) and k = 2(2)
  have "sized c (mem_burst_entry E c w)" by (simp add: sized_def mem_burst_entry_def)
  with run have "sized c s"
  proof (rule while_allocating_invariant)
    show "sized c b" if "sized c a" "allocated a < want_bytes c"
      "mem_burst_body E c (lim_src E (lim_reads w)) a = Continue b" for a b
      using that sized_appends mem_burst_body_appends by blast
    show "sized c b" if "sized c a" "allocated a < want_bytes c"
      "mem_burst_body E c (lim_src E (lim_reads w)) a = Break e b" for a b e
      using that sized_keeps sized_appends mem_burst_body_keeps by blast
  qed
  from this k show ?thesis by (rule sized_keeps)
  qed
qed

lemma allocate_slow_run_sized:
  assumes "allocate_slow_run fuel E c p w = Some (x, st)"
  shows "sized c st"
proof -
  from allocate_slow_run_loop[OF assms] consider "blocks st = [] \<and> allocated st = 0" |
    x' s where "while_allocating fuel (want_bytes c) (allocate_slow_body E c p)
            (allocate_slow_entry c p w) = Some (x', s)" "keeps s st"
    by blast
  then show ?thesis
  proof cases
    case 1
    then show ?thesis by (simp add: sized_def)
  next
    case (2 x' s)
    note run = 2(1) and k = 2(2)
  have "sized c (allocate_slow_entry c p w)" by (simp add: sized_def allocate_slow_entry_def)
  with run have "sized c s"
  proof (rule while_allocating_invariant)
    show "sized c b" if "sized c a" "allocated a < want_bytes c"
      "allocate_slow_body E c p a = Continue b" for a b
      using that sized_appends allocate_slow_body_appends by blast
    show "sized c b" if "sized c a" "allocated a < want_bytes c"
      "allocate_slow_body E c p a = Break e b" for a b e
      using that sized_keeps sized_appends allocate_slow_body_keeps by blast
  qed
  from this k show ?thesis by (rule sized_keeps)
  qed
qed

text \<open>
  C1, as the code has it.  Whenever \<^verbatim>\<open>mem_burst\<close> or \<^verbatim>\<open>allocate_slow\<close> returns a list
  of blocks, with or without a limit in the telemetry, the sizes of the returned blocks add
  up to at most \<open>max 0 targetBytes\<close> (hence to at most \<open>targetBytes\<close> when the target is not
  negative), block number \<open>i\<close> has size \<open>min blockBytes (targetBytes - total of the blocks
  before it)\<close>, and the run ends in a state whose running total \<^verbatim>\<open>allocated\<close> is the sum
  of the sizes of the blocks appended.
\<close>

theorem retained_total_bounded:
  "mem_burst fuel E c w = Some (Inr bs) \<or> allocate_slow fuel E c p w = Some (Inr bs) \<Longrightarrow>
   sum_list bs \<le> max 0 (want_bytes c) \<and>
   (\<forall>i<length bs. bs ! i = min (block_bytes c) (want_bytes c - sum_list (take i bs))) \<and>
   (\<exists>x st. (mem_burst_run fuel E c w = Some (x, st) \<or> allocate_slow_run fuel E c p w = Some (x, st)) \<and>
      blocks st = bs \<and> allocated st = sum_list bs)"
proof -
  assume "mem_burst fuel E c w = Some (Inr bs) \<or> allocate_slow fuel E c p w = Some (Inr bs)"
  then obtain x st where
    run: "mem_burst_run fuel E c w = Some (x, st) \<or> allocate_slow_run fuel E c p w = Some (x, st)"
    and bs: "blocks st = bs"
    unfolding mem_burst_def allocate_slow_def by (blast dest: returned_Inr)
  from run have s: "sized c st"
    using mem_burst_run_sized allocate_slow_run_sized by blast
  from s bs have "sum_list bs \<le> max 0 (want_bytes c)" by (auto simp: sized_def)
  moreover from s bs
  have "\<forall>i<length bs. bs ! i = min (block_bytes c) (want_bytes c - sum_list (take i bs))"
    by (auto simp: sized_def)
  moreover from s bs have "allocated st = sum_list bs" by (auto simp: sized_def)
  ultimately show ?thesis using run bs by blast
qed

theorem retained_total_bounded_witness:
  "mem_burst 4 quiet_env \<lparr>want_bytes = 100, block_bytes = 30, headroom_bytes = 0\<rparr> fresh_world
     = Some (Inr [30, 30, 30, 10]) \<and>
   sum_list [30, 30, 30, 10 :: int] \<le> max 0 100 \<and>
   [30, 30, 30, 10 :: int] ! 3 = min 30 (100 - sum_list (take 3 [30, 30, 30, 10]))"
proof -
  have run: "mem_burst 4 quiet_env \<lparr>want_bytes = 100, block_bytes = 30, headroom_bytes = 0\<rparr> fresh_world
     = Some (Inr [30, 30, 30, 10])"
    by code_simp
  from retained_total_bounded [of 4 quiet_env _ fresh_world "[30, 30, 30, 10]", OF disjI1, OF run]
  show ?thesis using run by simp
qed

text \<open>
  The bound of C1 as it is worded, \<open>total \<le> targetBytes\<close> for any target, fails for a
  negative target: the loop is not entered, the empty list is returned, and its total 0
  exceeds the target.
\<close>

theorem retained_total_negative_target:
  "mem_burst 0 quiet_env \<lparr>want_bytes = - 1, block_bytes = 1, headroom_bytes = 0\<rparr> fresh_world
     = Some (Inr []) \<and>
   \<not> sum_list ([] :: int list) \<le> want_bytes \<lparr>want_bytes = - 1, block_bytes = 1, headroom_bytes = 0\<rparr>"
proof -
  have "mem_burst 0 quiet_env \<lparr>want_bytes = - 1, block_bytes = 1, headroom_bytes = 0\<rparr> fresh_world
     = Some (Inr [])"
    by code_simp
  then show ?thesis by simp
qed

subsection \<open>Number of iterations\<close>

lemma ceil_shift:
  fixes b r :: int
  assumes "1 \<le> b"
  shows "(r + b - 1) div b = (r - 1) div b + 1"
proof -
  have "r + b - 1 = (r - 1) + b" by simp
  then show ?thesis using assms by (metis div_add_self2 not_one_le_zero)
qed

lemma ceil_step:
  fixes b r :: int
  assumes "1 \<le> b" "0 < r"
  shows "nat ((r + b - 1) div b) = Suc (nat ((r - min b r + b - 1) div b))"
proof -
  have nn: "0 \<le> (r - 1) div b" using assms by (simp add: pos_imp_zdiv_nonneg_iff)
  have "(r - min b r + b - 1) div b = (r - 1) div b"
  proof (cases "b \<le> r")
    case True
    then show ?thesis by simp
  next
    case False
    then have "(r - 1) div b = 0" "(b - 1) div b = 0" using assms by simp_all
    with False show ?thesis by simp
  qed
  with nn show ?thesis using ceil_shift[OF assms(1), of r] by simp
qed

lemma ceil_as_div:
  fixes a b :: int
  assumes "0 < b"
  shows "\<lceil>rat_of_int a / rat_of_int b\<rceil> = (a + b - 1) div b"
proof (rule ceiling_unique)
  let ?z = "(a + b - 1) div b"
  have eq: "?z * b + (a + b - 1) mod b = a + b - 1" by (rule div_mult_mod_eq)
  have "0 \<le> (a + b - 1) mod b" "(a + b - 1) mod b < b"
    using assms by simp_all
  with eq have lo: "?z * b \<le> a + b - 1" and hi: "a + b - 1 < ?z * b + b" by linarith+
  have "(?z - 1) * b < a" using lo by (simp add: algebra_simps)
  then have "rat_of_int ((?z - 1) * b) < rat_of_int a" by (simp only: of_int_less_iff)
  then show "rat_of_int ?z - 1 < rat_of_int a / rat_of_int b"
    using assms by (simp add: pos_less_divide_eq)
  have "a \<le> ?z * b" using hi by simp
  then have "rat_of_int a \<le> rat_of_int (?z * b)" by (simp only: of_int_le_iff)
  then show "rat_of_int a / rat_of_int b \<le> rat_of_int ?z"
    using assms by (simp add: pos_divide_le_eq)
qed

lemma iterations_left_done:
  assumes "1 \<le> block_bytes c" "\<not> allocated s < want_bytes c"
  shows "iterations_left c s = 0"
proof -
  have "want_bytes c - allocated s + block_bytes c - 1 < block_bytes c" using assms by simp
  then have "(want_bytes c - allocated s + block_bytes c - 1) div block_bytes c \<le> 0"
    using assms(1) by (smt (verit) div_pos_pos_trivial div_nonneg_neg_le0 zdiv_mono1)
  then show ?thesis by (simp add: iterations_left_def)
qed

lemma iterations_left_step:
  assumes "1 \<le> block_bytes c" "allocated s < want_bytes c" "appends c s s'"
  shows "iterations_left c s = Suc (iterations_left c s')"
proof -
  define r where "r = want_bytes c - allocated s"
  have "allocated s' = allocated s + min (block_bytes c) r"
    using assms(3) by (simp add: appends_def next_block_def r_def)
  then have r': "want_bytes c - allocated s' = r - min (block_bytes c) r" by (simp add: r_def)
  have "0 < r" using assms(2) by (simp add: r_def)
  from ceil_step[OF assms(1) this] show ?thesis
    unfolding iterations_left_def r' unfolding r_def by simp
qed

lemma appends_nonneg: "appends c s s' \<Longrightarrow> 0 \<le> allocated s \<Longrightarrow> 0 \<le> allocated s'"
  by (simp add: appends_def)

lemma while_completes:
  assumes prog: "\<And>s. 0 \<le> allocated s \<Longrightarrow> allocated s < want_bytes c \<Longrightarrow>
      \<exists>s'. body s = Continue s' \<and> appends c s s'"
    and b: "1 \<le> block_bytes c"
  shows "0 \<le> allocated st \<Longrightarrow> iterations_left c st \<le> fuel \<Longrightarrow>
    \<exists>st'. while_allocating fuel (want_bytes c) body st = Some (Completed, st') \<and>
          length (blocks st') = length (blocks st) + iterations_left c st \<and>
          \<not> allocated st' < want_bytes c"
proof (induction fuel arbitrary: st)
  case 0
  then have "iterations_left c st = 0" by simp
  moreover have "\<not> allocated st < want_bytes c"
  proof
    assume lt: "allocated st < want_bytes c"
    from prog[OF 0(1) lt] obtain s' where "appends c st s'" by blast
    from iterations_left_step[OF b lt this] \<open>iterations_left c st = 0\<close> show False by simp
  qed
  ultimately show ?case by simp
next
  case (Suc fuel)
  show ?case
  proof (cases "allocated st < want_bytes c")
    case False
    with iterations_left_done[OF b False] show ?thesis by simp
  next
    case True
    from prog[OF Suc.prems(1) True] obtain s' where s': "body st = Continue s'" "appends c st s'"
      by blast
    have left: "iterations_left c st = Suc (iterations_left c s')"
      by (rule iterations_left_step[OF b True s'(2)])
    with Suc.prems have "iterations_left c s' \<le> fuel" by simp
    from Suc.IH[OF appends_nonneg[OF s'(2) Suc.prems(1)] this] obtain st' where
      "while_allocating fuel (want_bytes c) body s' = Some (Completed, st')"
      "length (blocks st') = length (blocks s') + iterations_left c s'"
      "\<not> allocated st' < want_bytes c" by blast
    moreover have "length (blocks s') = Suc (length (blocks st))"
      using s'(2) by (simp add: appends_def)
    ultimately show ?thesis using True s'(1) left by simp
  qed
qed

lemma while_starves:
  assumes prog: "\<And>s. 0 \<le> allocated s \<Longrightarrow> allocated s < want_bytes c \<Longrightarrow>
      \<exists>s'. body s = Continue s' \<and> appends c s s'"
    and b: "1 \<le> block_bytes c"
  shows "0 \<le> allocated st \<Longrightarrow> fuel < iterations_left c st \<Longrightarrow>
    while_allocating fuel (want_bytes c) body st = None"
proof (induction fuel arbitrary: st)
  case 0
  then have "allocated st < want_bytes c" using iterations_left_done[OF b] by fastforce
  then show ?case by simp
next
  case (Suc fuel)
  then have lt: "allocated st < want_bytes c" using iterations_left_done[OF b] by fastforce
  from prog[OF Suc.prems(1) lt] obtain s' where s': "body st = Continue s'" "appends c st s'"
    by blast
  have "iterations_left c st = Suc (iterations_left c s')"
    by (rule iterations_left_step[OF b lt s'(2)])
  with Suc.prems have "fuel < iterations_left c s'" by simp
  from Suc.IH[OF appends_nonneg[OF s'(2) Suc.prems(1)] this] show ?case using lt s'(1) by simp
qed

lemma while_stuck:
  assumes same: "\<And>s. 0 \<le> allocated s \<Longrightarrow> allocated s < want \<Longrightarrow>
      \<exists>s'. body s = Continue s' \<and> allocated s' = allocated s"
  shows "0 \<le> allocated st \<Longrightarrow> allocated st < want \<Longrightarrow>
    while_allocating fuel want body st = None"
proof (induction fuel arbitrary: st)
  case 0
  then show ?case by simp
next
  case (Suc fuel)
  from same[OF Suc.prems] obtain s' where s': "body st = Continue s'" "allocated s' = allocated st"
    by blast
  with Suc.prems have "0 \<le> allocated s'" "allocated s' < want" by simp_all
  from Suc.IH[OF this] show ?case using Suc.prems s'(1) by simp
qed

text \<open>
  Inside the loop, with a block size that is not negative, the numbers that the log lines
  format lie between 0 and the target, and the size requested below \<open>2\<^sup>6\<^sup>3\<close> when the
  smaller of block size and target is.
\<close>

lemma in_loop_sizes:
  assumes "human (want_bytes c) = None" "min (block_bytes c) (want_bytes c) < 2 ^ 63"
    and "0 \<le> block_bytes c" "0 \<le> allocated s" "allocated s < want_bytes c"
  shows "human (next_block c s) = None" "human (allocated s) = None"
    "human (allocated s + next_block c s) = None" "0 \<le> next_block c s" "next_block c s < 2 ^ 63"
proof -
  show n: "0 \<le> next_block c s" using assms(3,5) by (simp add: next_block_def)
  have le: "next_block c s \<le> want_bytes c - allocated s" by (simp add: next_block_def)
  with assms(4) have "next_block c s \<le> want_bytes c" by simp
  with n show "human (next_block c s) = None" by (rule human_between[OF assms(1)])
  show "human (allocated s) = None" using assms(4,5) by (intro human_between[OF assms(1)]) simp_all
  show "human (allocated s + next_block c s) = None"
    using assms(4) n le by (intro human_between[OF assms(1)]) simp_all
  have "next_block c s \<le> min (block_bytes c) (want_bytes c)"
    using assms(4) by (simp add: next_block_def)
  then show "next_block c s < 2 ^ 63" using assms(2) by (rule le_less_trans)
qed

lemma mem_burst_body_progress:
  assumes "\<forall>k n. alloc_ok E k n"
    and "\<forall>k. \<not> headroom_hit limit (cur_src E k) (headroom_bytes c)"
    and "human (want_bytes c) = None" "min (block_bytes c) (want_bytes c) < 2 ^ 63"
    and "0 \<le> block_bytes c" "0 \<le> allocated s" "allocated s < want_bytes c"
  shows "\<exists>s'. mem_burst_body E c limit s = Continue s' \<and> appends c s s'"
  using assms(1,2) in_loop_sizes[OF assms(3-7), unfolded next_block_def]
  by (auto simp: mem_burst_body_def appends_def next_block_def body_defs)

lemma allocate_slow_body_progress:
  assumes "\<forall>k n. alloc_ok E k n"
    and "\<forall>j k. \<not> headroom_hit (lim_src E j) (cur_src E k) (headroom_bytes c)"
    and "human (want_bytes c) = None" "min (block_bytes c) (want_bytes c) < 2 ^ 63"
    and "0 \<le> block_bytes c" "0 \<le> allocated s" "allocated s < want_bytes c"
    and "py_sleep p = None"
  shows "\<exists>s'. allocate_slow_body E c p s = Continue s' \<and> appends c s s'"
  using assms(1,2,8) in_loop_sizes[OF assms(3-7), unfolded next_block_def]
  by (auto simp: allocate_slow_body_def appends_def next_block_def body_defs)

text \<open>When the header line can be formatted, a run is its loop, entered after that line.\<close>

lemma mem_burst_run_entered:
  assumes "header_ok c"
  shows "mem_burst_run fuel E c w =
    (case while_allocating fuel (want_bytes c) (mem_burst_body E c (lim_src E (lim_reads w)))
            (mem_burst_entry E c w) of
       None \<Rightarrow> None
     | Some (MemoryErrorCaught, st) \<Rightarrow>
         (case log_line [allocated st, want_bytes c] (MemMemoryError (allocated st) (want_bytes c)) st of
            Inl e \<Rightarrow> Some (Raised e, st)
          | Inr st' \<Rightarrow> Some (MemoryErrorCaught, st'))
     | Some (x, st) \<Rightarrow> Some (x, st))"
  using assms
  by (simp add: mem_burst_run_def mem_burst_entry_def header_ok_def read_cgroup_limits_def
      log_line_def Let_def emit_def)

lemma allocate_slow_run_entered:
  assumes "header_ok c"
  shows "allocate_slow_run fuel E c p w =
    (case while_allocating fuel (want_bytes c) (allocate_slow_body E c p) (allocate_slow_entry c p w) of
       None \<Rightarrow> None
     | Some (Raised e, st) \<Rightarrow> Some (Raised e, st)
     | Some (MemoryErrorCaught, st) \<Rightarrow>
         (case log_line [allocated st, want_bytes c] (MemMemoryError (allocated st) (want_bytes c)) st of
            Inl e \<Rightarrow> Some (Raised e, st)
          | Inr st' \<Rightarrow>
              (case log_line [allocated st'] (MemDone (allocated st') (length (blocks st'))) st' of
                 Inl e \<Rightarrow> Some (Raised e, st')
               | Inr st'' \<Rightarrow> Some (MemoryErrorCaught, st'')))
     | Some (x, st) \<Rightarrow>
         (case log_line [allocated st] (MemDone (allocated st) (length (blocks st))) st of
            Inl e \<Rightarrow> Some (Raised e, st)
          | Inr st' \<Rightarrow> Some (x, st')))"
  using assms
  by (simp add: allocate_slow_run_def allocate_slow_entry_def header_ok_def log_line_def Let_def emit_def)

lemma mem_burst_run_None:
  "header_ok c \<Longrightarrow>
   while_allocating fuel (want_bytes c) (mem_burst_body E c (lim_src E (lim_reads w)))
     (mem_burst_entry E c w) = None \<Longrightarrow> mem_burst_run fuel E c w = None"
  by (simp add: mem_burst_run_entered)

lemma allocate_slow_run_None:
  "header_ok c \<Longrightarrow>
   while_allocating fuel (want_bytes c) (allocate_slow_body E c p) (allocate_slow_entry c p w) = None
   \<Longrightarrow> allocate_slow_run fuel E c p w = None"
  by (simp add: allocate_slow_run_entered)

lemma mem_burst_run_Completed:
  "header_ok c \<Longrightarrow>
   while_allocating fuel (want_bytes c) (mem_burst_body E c (lim_src E (lim_reads w)))
     (mem_burst_entry E c w) = Some (Completed, s) \<Longrightarrow> mem_burst_run fuel E c w = Some (Completed, s)"
  by (simp add: mem_burst_run_entered)

lemma allocate_slow_run_Completed:
  "header_ok c \<Longrightarrow> human (allocated s) = None \<Longrightarrow>
   while_allocating fuel (want_bytes c) (allocate_slow_body E c p) (allocate_slow_entry c p w)
     = Some (Completed, s) \<Longrightarrow>
   allocate_slow_run fuel E c p w = Some (Completed, emit (Log (MemDone (allocated s) (length (blocks s)))) s)"
  by (simp add: allocate_slow_run_entered log_line_def)

lemma iterations_left_entry:
  assumes "1 \<le> block_bytes c" "allocated s = 0"
  shows "iterations_left c s = nat \<lceil>rat_of_int (want_bytes c) / rat_of_int (block_bytes c)\<rceil>"
  using assms ceil_as_div[of "block_bytes c" "want_bytes c"] by (simp add: iterations_left_def)

lemma mem_burst_counts:
  assumes ok: "\<forall>k n. alloc_ok E k n"
    and nohit: "\<forall>j k. \<not> headroom_hit (lim_src E j) (cur_src E k) (headroom_bytes c)"
    and want: "0 \<le> want_bytes c" and b: "1 \<le> block_bytes c"
    and h: "header_ok c" and sz: "min (block_bytes c) (want_bytes c) < 2 ^ 63"
  shows "if nat \<lceil>rat_of_int (want_bytes c) / rat_of_int (block_bytes c)\<rceil> \<le> fuel
      then \<exists>st. mem_burst_run fuel E c w = Some (Completed, st) \<and>
             length (blocks st) = nat \<lceil>rat_of_int (want_bytes c) / rat_of_int (block_bytes c)\<rceil> \<and>
             sum_list (blocks st) = want_bytes c
      else mem_burst_run fuel E c w = None"
proof -
  let ?body = "mem_burst_body E c (lim_src E (lim_reads w))" and ?e = "mem_burst_entry E c w"
  from h have hw: "human (want_bytes c) = None" by (simp add: header_ok_def)
  from b have b0: "0 \<le> block_bytes c" by simp
  have prog: "\<exists>s'. ?body s = Continue s' \<and> appends c s s'"
    if "0 \<le> allocated s" "allocated s < want_bytes c" for s
    using mem_burst_body_progress[OF ok _ hw sz b0 that] nohit by simp
  have e0: "0 \<le> allocated ?e" by (simp add: mem_burst_entry_def)
  have left: "iterations_left c ?e = nat \<lceil>rat_of_int (want_bytes c) / rat_of_int (block_bytes c)\<rceil>"
    by (rule iterations_left_entry[OF b]) (simp add: mem_burst_entry_def)
  show ?thesis
  proof (cases "iterations_left c ?e \<le> fuel")
    case True
    from while_completes[of c ?body, OF prog b e0 True] obtain st where
      run: "while_allocating fuel (want_bytes c) ?body ?e = Some (Completed, st)"
      and len: "length (blocks st) = length (blocks ?e) + iterations_left c ?e"
      and fin: "\<not> allocated st < want_bytes c" by blast
    have r: "mem_burst_run fuel E c w = Some (Completed, st)"
      by (rule mem_burst_run_Completed[OF h run])
    from mem_burst_run_sized[OF r] fin want have "sum_list (blocks st) = want_bytes c"
      by (simp add: sized_def)
    with r len left True show ?thesis by (simp add: mem_burst_entry_def)
  next
    case False
    then have "fuel < iterations_left c ?e" by simp
    from while_starves[of c ?body, OF prog b e0 this] have "mem_burst_run fuel E c w = None"
      by (rule mem_burst_run_None[OF h])
    with False left show ?thesis by simp
  qed
qed

lemma allocate_slow_counts:
  assumes ok: "\<forall>k n. alloc_ok E k n"
    and nohit: "\<forall>j k. \<not> headroom_hit (lim_src E j) (cur_src E k) (headroom_bytes c)"
    and want: "0 \<le> want_bytes c" and b: "1 \<le> block_bytes c"
    and h: "header_ok c" and sz: "min (block_bytes c) (want_bytes c) < 2 ^ 63"
    and p: "py_sleep p = None"
  shows "if nat \<lceil>rat_of_int (want_bytes c) / rat_of_int (block_bytes c)\<rceil> \<le> fuel
      then \<exists>st. allocate_slow_run fuel E c p w = Some (Completed, st) \<and>
             length (blocks st) = nat \<lceil>rat_of_int (want_bytes c) / rat_of_int (block_bytes c)\<rceil> \<and>
             sum_list (blocks st) = want_bytes c
      else allocate_slow_run fuel E c p w = None"
proof -
  let ?body = "allocate_slow_body E c p" and ?e = "allocate_slow_entry c p w"
  from h have hw: "human (want_bytes c) = None" by (simp add: header_ok_def)
  from b have b0: "0 \<le> block_bytes c" by simp
  have prog: "\<exists>s'. ?body s = Continue s' \<and> appends c s s'"
    if "0 \<le> allocated s" "allocated s < want_bytes c" for s
    by (rule allocate_slow_body_progress[OF ok nohit hw sz b0 that p])
  have e0: "0 \<le> allocated ?e" by (simp add: allocate_slow_entry_def)
  have left: "iterations_left c ?e = nat \<lceil>rat_of_int (want_bytes c) / rat_of_int (block_bytes c)\<rceil>"
    by (rule iterations_left_entry[OF b]) (simp add: allocate_slow_entry_def)
  show ?thesis
  proof (cases "iterations_left c ?e \<le> fuel")
    case True
    from while_completes[of c ?body, OF prog b e0 True] obtain st where
      run: "while_allocating fuel (want_bytes c) ?body ?e = Some (Completed, st)"
      and len: "length (blocks st) = length (blocks ?e) + iterations_left c ?e"
      and fin: "\<not> allocated st < want_bytes c" by blast
    have "sized c (allocate_slow_entry c p w)" by (simp add: sized_def allocate_slow_entry_def)
    with run have sz': "sized c st"
    proof (rule while_allocating_invariant)
      show "sized c b" if "sized c a" "allocated a < want_bytes c"
        "allocate_slow_body E c p a = Continue b" for a b
        using that sized_appends allocate_slow_body_appends by blast
      show "sized c b" if "sized c a" "allocated a < want_bytes c"
        "allocate_slow_body E c p a = Break e b" for a b e
        using that sized_keeps sized_appends allocate_slow_body_keeps by blast
    qed
    with fin want have tot: "allocated st = want_bytes c" "sum_list (blocks st) = want_bytes c"
      by (simp_all add: sized_def)
    with hw have ha: "human (allocated st) = None" by simp
    let ?st = "emit (Log (MemDone (allocated st) (length (blocks st)))) st"
    have r: "allocate_slow_run fuel E c p w = Some (Completed, ?st)"
      by (rule allocate_slow_run_Completed[OF h ha run])
    with tot len left True show ?thesis by (simp add: allocate_slow_entry_def emit_def)
  next
    case False
    then have "fuel < iterations_left c ?e" by simp
    from while_starves[of c ?body, OF prog b e0 this] have "allocate_slow_run fuel E c p w = None"
      by (rule allocate_slow_run_None[OF h])
    with False left show ?thesis by simp
  qed
qed

lemma zero_block_never_returns:
  assumes ok: "\<forall>k n. alloc_ok E k n"
    and nohit: "\<forall>j k. \<not> headroom_hit (lim_src E j) (cur_src E k) (headroom_bytes c)"
    and b: "block_bytes c = 0" and want: "0 < want_bytes c"
    and h: "header_ok c" and p: "py_sleep p = None"
  shows "mem_burst_run fuel E c w = None \<and> allocate_slow_run fuel E c p w = None"
proof
  from h have hw: "human (want_bytes c) = None" by (simp add: header_ok_def)
  from b want have sz: "min (block_bytes c) (want_bytes c) < 2 ^ 63" by simp
  from b have b0: "0 \<le> block_bytes c" by simp
  have "\<exists>s'. mem_burst_body E c (lim_src E (lim_reads w)) s = Continue s' \<and> allocated s' = allocated s"
    if "0 \<le> allocated s" "allocated s < want_bytes c" for s
    using mem_burst_body_progress[OF ok _ hw sz b0 that, of "lim_src E (lim_reads w)"] nohit b that
    by (auto simp: appends_def next_block_def)
  then have "while_allocating fuel (want_bytes c) (mem_burst_body E c (lim_src E (lim_reads w)))
     (mem_burst_entry E c w) = None"
    by (rule while_stuck) (simp_all add: mem_burst_entry_def want)
  then show "mem_burst_run fuel E c w = None" by (rule mem_burst_run_None[OF h])
  have "\<exists>s'. allocate_slow_body E c p s = Continue s' \<and> allocated s' = allocated s"
    if "0 \<le> allocated s" "allocated s < want_bytes c" for s
    using allocate_slow_body_progress[OF ok nohit hw sz b0 that p] b that
    by (auto simp: appends_def next_block_def)
  then have "while_allocating fuel (want_bytes c) (allocate_slow_body E c p)
     (allocate_slow_entry c p w) = None"
    by (rule while_stuck) (simp_all add: allocate_slow_entry_def want)
  then show "allocate_slow_run fuel E c p w = None" by (rule allocate_slow_run_None[OF h])
qed

text \<open>
  C10, for the sizes the scripts can work with.  Suppose every allocation is granted by
  the platform and the headroom check never fires; the target, the block size and the
  headroom are sizes that the header line can format (below \<open>2\<^sup>1\<^sup>0\<^sup>2\<^sup>4 - 2\<^sup>9\<^sup>7\<^sup>0\<close> in absolute
  value), the smaller of block size and target is below \<open>2\<^sup>6\<^sup>3\<close>, so that \<^verbatim>\<open>bytearray\<close>
  takes every size asked, and the pause of \<^verbatim>\<open>allocate_slow\<close> is one that
  \<^verbatim>\<open>time.sleep\<close> accepts.  Then for a target \<open>\<ge> 0\<close> and a block size \<open>\<ge> 1\<close> the loop
  runs its body exactly \<open>\<lceil>targetBytes / blockBytes\<rceil>\<close> times: with that much fuel or more
  it completes, holding that many blocks whose sizes add up to the target, and with less
  it has not finished.  With a block size of 0 and a positive target it never finishes,
  whatever the fuel.
\<close>

theorem allocation_loop_iterations:
  "\<forall>k n. alloc_ok E k n \<Longrightarrow>
   \<forall>j k. \<not> headroom_hit (lim_src E j) (cur_src E k) (headroom_bytes c) \<Longrightarrow>
   0 \<le> want_bytes c \<Longrightarrow> header_ok c \<Longrightarrow> min (block_bytes c) (want_bytes c) < 2 ^ 63 \<Longrightarrow>
   py_sleep p = None \<Longrightarrow>
   (1 \<le> block_bytes c \<longrightarrow>
      (if nat \<lceil>rat_of_int (want_bytes c) / rat_of_int (block_bytes c)\<rceil> \<le> fuel
       then (\<exists>st. mem_burst_run fuel E c w = Some (Completed, st) \<and>
               length (blocks st) = nat \<lceil>rat_of_int (want_bytes c) / rat_of_int (block_bytes c)\<rceil> \<and>
               sum_list (blocks st) = want_bytes c) \<and>
            (\<exists>st. allocate_slow_run fuel E c p w = Some (Completed, st) \<and>
               length (blocks st) = nat \<lceil>rat_of_int (want_bytes c) / rat_of_int (block_bytes c)\<rceil> \<and>
               sum_list (blocks st) = want_bytes c)
       else mem_burst_run fuel E c w = None \<and> allocate_slow_run fuel E c p w = None)) \<and>
   (block_bytes c = 0 \<and> 0 < want_bytes c \<longrightarrow>
      mem_burst_run fuel E c w = None \<and> allocate_slow_run fuel E c p w = None)"
  using mem_burst_counts[of E c fuel w] allocate_slow_counts[of E c p fuel w]
    zero_block_never_returns[of E c p fuel w]
  by (simp split: if_splits)

lemma quiet_ok: "\<forall>k n. alloc_ok quiet_env k n"
  by (simp add: quiet_env_def)

lemma quiet_nohit: "\<forall>j k. \<not> headroom_hit (lim_src quiet_env j) (cur_src quiet_env k) h"
  by (simp add: quiet_env_def headroom_hit_def lim_src_def cur_src_def)

lemma py_sleep_zero: "py_sleep 0 = None"
  by (simp add: py_sleep_def round_double_def)

theorem allocation_loop_iterations_witness:
  "(\<exists>st. mem_burst_run 4 quiet_env \<lparr>want_bytes = 100, block_bytes = 25, headroom_bytes = 0\<rparr> fresh_world
        = Some (Completed, st) \<and> length (blocks st) = 4 \<and> sum_list (blocks st) = 100) \<and>
   allocate_slow_run 3 quiet_env \<lparr>want_bytes = 100, block_bytes = 25, headroom_bytes = 0\<rparr> 0 fresh_world = None \<and>
   mem_burst_run 9 quiet_env \<lparr>want_bytes = 1, block_bytes = 0, headroom_bytes = 0\<rparr> fresh_world = None"
proof -
  have c: "nat \<lceil>rat_of_int 100 / rat_of_int 25\<rceil> = 4" by simp
  have h: "header_ok \<lparr>want_bytes = 100, block_bytes = 25, headroom_bytes = 0\<rparr>"
    "header_ok \<lparr>want_bytes = 1, block_bytes = 0, headroom_bytes = 0\<rparr>"
    by (simp_all add: header_ok_def human_small)
  from allocation_loop_iterations[OF quiet_ok quiet_nohit _ h(1) _ py_sleep_zero, of 4 fresh_world]
  have a: "\<exists>st. mem_burst_run 4 quiet_env \<lparr>want_bytes = 100, block_bytes = 25, headroom_bytes = 0\<rparr> fresh_world
        = Some (Completed, st) \<and> length (blocks st) = 4 \<and> sum_list (blocks st) = 100"
    using c by simp
  from allocation_loop_iterations[OF quiet_ok quiet_nohit _ h(1) _ py_sleep_zero, of 3 fresh_world]
  have b: "allocate_slow_run 3 quiet_env \<lparr>want_bytes = 100, block_bytes = 25, headroom_bytes = 0\<rparr> 0 fresh_world = None"
    using c by simp
  from allocation_loop_iterations[OF quiet_ok quiet_nohit _ h(2) _ py_sleep_zero, of 9 fresh_world]
  have d: "mem_burst_run 9 quiet_env \<lparr>want_bytes = 1, block_bytes = 0, headroom_bytes = 0\<rparr> fresh_world = None"
    by simp
  from a b d show ?thesis by blast
qed

text \<open>
  C10 as worded, for every target \<open>\<ge> 0\<close> and block size \<open>\<ge> 1\<close>, fails for sizes beyond the
  range of a float.  With a target and a block size of \<open>2\<^sup>1\<^sup>0\<^sup>2\<^sup>4\<close> the count
  \<open>\<lceil>targetBytes / blockBytes\<rceil>\<close> is 1, no allocation fails and no headroom check fires, yet
  neither loop runs its body once: the header line, which formats the target, raises
  \<^verbatim>\<open>OverflowError\<close>, and the exception leaves the function.
\<close>

theorem header_overflow_stops_run:
  "mem_burst_run 1 quiet_env \<lparr>want_bytes = 2 ^ 1024, block_bytes = 2 ^ 1024, headroom_bytes = 0\<rparr>
      fresh_world
     = Some (Raised OverflowError, fresh_world\<lparr>lim_reads := 1, trace := [ReadLimits]\<rparr>) \<and>
   allocate_slow_run 1 quiet_env \<lparr>want_bytes = 2 ^ 1024, block_bytes = 2 ^ 1024, headroom_bytes = 0\<rparr> 0
      fresh_world
     = Some (Raised OverflowError, fresh_world) \<and>
   nat \<lceil>rat_of_int (2 ^ 1024) / rat_of_int (2 ^ 1024)\<rceil> = 1"
proof -
  have "human (2 ^ 1024) = Some OverflowError" by code_simp
  then show ?thesis
    by (simp add: mem_burst_run_def allocate_slow_run_def log_line_def read_cgroup_limits_def
        fresh_world_def quiet_env_def lim_src_def Let_def)
qed

subsection \<open>Allocation exhaustion\<close>

lemma granted_append [simp]: "granted (t @ u) = granted t @ granted u"
  by (induction t rule: granted.induct) simp_all

lemma no_failure_append [simp]: "no_failure (t @ u) \<longleftrightarrow> no_failure t \<and> no_failure u"
  by (auto simp: no_failure_def)

lemma no_failure_simps [simp]:
  "no_failure []" "no_failure (e # t) \<longleftrightarrow> (\<forall>n. e \<noteq> AllocFailed n) \<and> no_failure t"
  by (auto simp: no_failure_def)

text \<open>
  One execution of a body in which the headroom check passes and the sizes are in range:
  what it does when the platform grants the request, and when it refuses it.
\<close>

lemma mem_burst_body_granted:
  assumes "\<not> headroom_hit limit (cur_src E (cur_reads s)) (headroom_bytes c)"
    and "human (want_bytes c) = None" "min (block_bytes c) (want_bytes c) < 2 ^ 63"
    and "0 \<le> block_bytes c" "0 \<le> allocated s" "allocated s < want_bytes c"
    and "alloc_ok E (allocs s) (next_block c s)"
  shows "\<exists>s'. mem_burst_body E c limit s = Continue s' \<and>
      allocs s' = Suc (allocs s) \<and> cur_reads s' = cur_reads s + 2 \<and> lim_reads s' = lim_reads s \<and>
      blocks s' = blocks s @ [next_block c s] \<and> allocated s' = allocated s + next_block c s \<and>
      (\<exists>u. trace s' = trace s @ u \<and> granted u = [next_block c s] \<and> no_failure u)"
  using assms(1,7) in_loop_sizes[OF assms(2-6), unfolded next_block_def]
  by (auto simp: mem_burst_body_def next_block_def body_defs)

lemma mem_burst_body_refused:
  assumes "\<not> headroom_hit limit (cur_src E (cur_reads s)) (headroom_bytes c)"
    and "human (want_bytes c) = None" "min (block_bytes c) (want_bytes c) < 2 ^ 63"
    and "0 \<le> block_bytes c" "0 \<le> allocated s" "allocated s < want_bytes c"
    and "\<not> alloc_ok E (allocs s) (next_block c s)"
  shows "\<exists>s'. mem_burst_body E c limit s = Break MemoryErrorCaught s' \<and>
      blocks s' = blocks s \<and> allocated s' = allocated s \<and>
      (\<exists>u. trace s' = trace s @ u @ [AllocFailed (next_block c s)] \<and> granted u = [] \<and> no_failure u)"
  using assms(1,7) in_loop_sizes[OF assms(2-6), unfolded next_block_def]
  by (auto simp: mem_burst_body_def next_block_def body_defs)

lemma allocate_slow_body_granted:
  assumes "\<not> headroom_hit (lim_src E (lim_reads s)) (cur_src E (cur_reads s)) (headroom_bytes c)"
    and "human (want_bytes c) = None" "min (block_bytes c) (want_bytes c) < 2 ^ 63"
    and "0 \<le> block_bytes c" "0 \<le> allocated s" "allocated s < want_bytes c"
    and "alloc_ok E (allocs s) (next_block c s)" "py_sleep p = None"
  shows "\<exists>s'. allocate_slow_body E c p s = Continue s' \<and>
      allocs s' = Suc (allocs s) \<and> cur_reads s' = cur_reads s + 2 \<and> lim_reads s' = Suc (lim_reads s) \<and>
      blocks s' = blocks s @ [next_block c s] \<and> allocated s' = allocated s + next_block c s \<and>
      (\<exists>u. trace s' = trace s @ u \<and> granted u = [next_block c s] \<and> no_failure u)"
  using assms(1,7,8) in_loop_sizes[OF assms(2-6), unfolded next_block_def]
  by (auto simp: allocate_slow_body_def next_block_def body_defs)

lemma allocate_slow_body_refused:
  assumes "\<not> headroom_hit (lim_src E (lim_reads s)) (cur_src E (cur_reads s)) (headroom_bytes c)"
    and "human (want_bytes c) = None" "min (block_bytes c) (want_bytes c) < 2 ^ 63"
    and "0 \<le> block_bytes c" "0 \<le> allocated s" "allocated s < want_bytes c"
    and "\<not> alloc_ok E (allocs s) (next_block c s)"
  shows "\<exists>s'. allocate_slow_body E c p s = Break MemoryErrorCaught s' \<and>
      blocks s' = blocks s \<and> allocated s' = allocated s \<and>
      (\<exists>u. trace s' = trace s @ u @ [AllocFailed (next_block c s)] \<and> granted u = [] \<and> no_failure u)"
  using assms(1,7) in_loop_sizes[OF assms(2-6), unfolded next_block_def]
  by (auto simp: allocate_slow_body_def next_block_def body_defs)

text \<open>
  A loop whose body grants a block of size \<open>b\<close> in each of the iterations \<open>j < k\<close> and
  leaves the loop in iteration \<open>k\<close>, in the way \<open>x\<close> and with the event \<open>ev\<close>, without
  retaining a block: with fuel for \<open>k + 1\<close> iterations the loop is left that way, holding
  the \<open>k\<close> blocks.  \<open>stage j s\<close> says that \<open>s\<close> is a state in which iteration \<open>j\<close> starts.
\<close>

lemma while_ends:
  assumes step: "\<And>j s. j < k \<Longrightarrow> stage j s \<Longrightarrow>
      allocated s < want \<and>
      (\<exists>s'. body s = Continue s' \<and> stage (Suc j) s' \<and> blocks s' = blocks s @ [b] \<and>
         allocated s' = allocated s + b \<and>
         (\<exists>u. trace s' = trace s @ u \<and> granted u = [b] \<and> no_failure u))"
    and final: "\<And>s. stage k s \<Longrightarrow>
      allocated s < want \<and>
      (\<exists>s'. body s = Break x s' \<and> blocks s' = blocks s \<and>
         allocated s' = allocated s \<and>
         (\<exists>u. trace s' = trace s @ u @ [ev] \<and> granted u = [] \<and> no_failure u))"
  shows "stage j s \<Longrightarrow> j + d = k \<Longrightarrow> d < fuel \<Longrightarrow>
    \<exists>s'. while_allocating fuel want body s = Some (x, s') \<and>
      blocks s' = blocks s @ replicate d b \<and> allocated s' = allocated s + int d * b \<and>
      (\<exists>t. trace s' = trace s @ t @ [ev] \<and> granted t = replicate d b \<and> no_failure t)"
proof (induction d arbitrary: j s fuel)
  case 0
  then have "stage k s" by simp
  from final[OF this] obtain s' u where lt: "allocated s < want"
    and s': "body s = Break x s'" "blocks s' = blocks s" "allocated s' = allocated s"
      "trace s' = trace s @ u @ [ev]" "granted u = []" "no_failure u"
    by blast
  from 0(3) obtain f where f: "fuel = Suc f" by (cases fuel) simp_all
  have "while_allocating fuel want body s = Some (x, s')"
    unfolding f using lt s'(1) by simp
  with s' show ?case by auto
next
  case (Suc d)
  then have jk: "j < k" by simp
  from step[OF jk Suc.prems(1)] obtain s1 u where lt: "allocated s < want"
    and s1: "body s = Continue s1" "stage (Suc j) s1" "blocks s1 = blocks s @ [b]"
      "allocated s1 = allocated s + b" "trace s1 = trace s @ u" "granted u = [b]" "no_failure u"
    by blast
  from Suc.prems(3) obtain f where f: "fuel = Suc f" "d < f" by (cases fuel) simp_all
  from Suc.prems(2) have "Suc j + d = k" by simp
  from Suc.IH[OF s1(2) this f(2)] obtain s' t where
    run: "while_allocating f want body s1 = Some (x, s')"
    and s': "blocks s' = blocks s1 @ replicate d b" "allocated s' = allocated s1 + int d * b"
      "trace s' = trace s1 @ t @ [ev]" "granted t = replicate d b" "no_failure t"
    by blast
  have "while_allocating fuel want body s = Some (x, s')"
    unfolding f using lt s1(1) run by simp
  moreover have "blocks s' = blocks s @ replicate (Suc d) b" using s'(1) s1(3) by simp
  moreover have "allocated s' = allocated s + int (Suc d) * b"
    using s'(2) s1(4) by (simp add: algebra_simps)
  moreover have "trace s' = trace s @ (u @ t) @ [ev]" using s'(3) s1(5) by simp
  moreover have "granted (u @ t) = replicate (Suc d) b" using s1(6) s'(4) by simp
  moreover have "no_failure (u @ t)" using s1(7) s'(5) by simp
  ultimately show ?case by blast
qed

lemma full_blocks:
  fixes b want :: int
  assumes "0 \<le> b" "int k * b < want" "j < k"
  shows "int j * b < want" "min b (want - int j * b) = b" "0 \<le> int j * b"
proof -
  from assms(3) have "int (Suc j) \<le> int k" by simp
  then have "int (Suc j) * b \<le> int k * b" using assms(1) by (rule mult_right_mono)
  with assms(2) have lt: "int j * b + b < want" by (simp add: algebra_simps)
  with assms(1) show "int j * b < want" by simp
  from lt show "min b (want - int j * b) = b" by simp
  show "0 \<le> int j * b" using assms(1) by simp
qed

lemma mem_burst_refusal:
  assumes h: "header_ok c" and b0: "0 \<le> block_bytes c"
    and sz: "min (block_bytes c) (want_bytes c) < 2 ^ 63"
    and kb: "int k * block_bytes c < want_bytes c" and fuel: "k < fuel"
    and g: "\<forall>j<k. alloc_ok E (allocs w + j) (block_bytes c)"
    and r: "\<not> alloc_ok E (allocs w + k) (min (block_bytes c) (want_bytes c - int k * block_bytes c))"
    and nh: "\<forall>j\<le>k. \<not> headroom_hit (lim_src E (lim_reads w)) (cur_src E (cur_reads w + 2 * j))
               (headroom_bytes c)"
  shows "\<exists>st t. mem_burst_run fuel E c w = Some (MemoryErrorCaught, st) \<and>
      blocks st = replicate k (block_bytes c) \<and> allocated st = int k * block_bytes c \<and>
      new_events w st =
        ReadLimits #
        Log (MemBurstTarget (want_bytes c) (block_bytes c) (headroom_bytes c) (lim_src E (lim_reads w))) #
        t @ [AllocFailed (min (block_bytes c) (want_bytes c - int k * block_bytes c)),
             Log (MemMemoryError (int k * block_bytes c) (want_bytes c))] \<and>
      granted t = replicate k (block_bytes c) \<and> no_failure t"
proof -
  let ?b = "block_bytes c" and ?want = "want_bytes c"
  let ?n = "min ?b (?want - int k * ?b)"
  let ?body = "mem_burst_body E c (lim_src E (lim_reads w))" and ?e = "mem_burst_entry E c w"
  define stage where "stage j s \<longleftrightarrow>
    allocs s = allocs w + j \<and> cur_reads s = cur_reads w + 2 * j \<and> allocated s = int j * ?b" for j and s :: mstate
  from h have hw: "human ?want = None" by (simp add: header_ok_def)
  have step: "allocated s < ?want \<and>
      (\<exists>s'. ?body s = Continue s' \<and> stage (Suc j) s' \<and> blocks s' = blocks s @ [?b] \<and>
         allocated s' = allocated s + ?b \<and>
         (\<exists>u. trace s' = trace s @ u \<and> granted u = [?b] \<and> no_failure u))"
    if "j < k" "stage j s" for j s
  proof -
    from that(2) have st: "allocs s = allocs w + j" "cur_reads s = cur_reads w + 2 * j"
      "allocated s = int j * ?b" by (simp_all add: stage_def)
    note fb = full_blocks[OF b0 kb that(1)]
    have lt: "allocated s < ?want" and nn: "0 \<le> allocated s" using fb st(3) by simp_all
    have nb: "next_block c s = ?b" using fb(2) st(3) by (simp add: next_block_def)
    have "\<not> headroom_hit (lim_src E (lim_reads w)) (cur_src E (cur_reads s)) (headroom_bytes c)"
      using nh that(1) st(2) by simp
    moreover have "alloc_ok E (allocs s) (next_block c s)" using g that(1) st(1) nb by simp
    ultimately obtain s' where s': "?body s = Continue s'" "allocs s' = Suc (allocs s)"
      "cur_reads s' = cur_reads s + 2" "blocks s' = blocks s @ [next_block c s]"
      "allocated s' = allocated s + next_block c s"
      "\<exists>u. trace s' = trace s @ u \<and> granted u = [next_block c s] \<and> no_failure u"
      using mem_burst_body_granted[OF _ hw sz b0 nn lt] by blast
    have "stage (Suc j) s'" using s'(2,3,5) st nb by (simp add: stage_def algebra_simps)
    with lt s' nb show ?thesis by auto
  qed
  have final: "allocated s < ?want \<and>
      (\<exists>s'. ?body s = Break MemoryErrorCaught s' \<and> blocks s' = blocks s \<and>
         allocated s' = allocated s \<and>
         (\<exists>u. trace s' = trace s @ u @ [AllocFailed ?n] \<and> granted u = [] \<and> no_failure u))"
    if "stage k s" for s
  proof -
    from that have st: "allocs s = allocs w + k" "cur_reads s = cur_reads w + 2 * k"
      "allocated s = int k * ?b" by (simp_all add: stage_def)
    have lt: "allocated s < ?want" and nn: "0 \<le> allocated s" using kb b0 st(3) by simp_all
    have nb: "next_block c s = ?n" using st(3) by (simp add: next_block_def)
    have "\<not> headroom_hit (lim_src E (lim_reads w)) (cur_src E (cur_reads s)) (headroom_bytes c)"
      using nh st(2) by simp
    moreover have "\<not> alloc_ok E (allocs s) (next_block c s)" using r st(1) nb by simp
    ultimately show ?thesis
      using mem_burst_body_refused[OF _ hw sz b0 nn lt] lt nb by auto
  qed
  have "stage 0 ?e" by (simp add: stage_def mem_burst_entry_def)
  from while_ends[of k stage "?want" ?body ?b MemoryErrorCaught "AllocFailed ?n", OF step final this _ fuel]
  obtain s' t where run: "while_allocating fuel ?want ?body ?e = Some (MemoryErrorCaught, s')"
    and s': "blocks s' = blocks ?e @ replicate k ?b" "allocated s' = allocated ?e + int k * ?b"
      "trace s' = trace ?e @ t @ [AllocFailed ?n]" "granted t = replicate k ?b" "no_failure t"
    by auto
  from s'(2) have al: "allocated s' = int k * ?b" by (simp add: mem_burst_entry_def)
  have "human (allocated s') = None"
    using al kb b0 by (intro human_between[OF hw]) simp_all
  with hw have lg: "log_line [allocated s', ?want] (MemMemoryError (allocated s') ?want) s'
      = Inr (emit (Log (MemMemoryError (allocated s') ?want)) s')"
    by (simp add: log_line_def)
  let ?st = "emit (Log (MemMemoryError (allocated s') ?want)) s'"
  have r1: "mem_burst_run fuel E c w = Some (MemoryErrorCaught, ?st)"
    unfolding mem_burst_run_entered[OF h] run by (simp add: lg)
  have "blocks ?st = replicate k ?b" using s'(1) by (simp add: emit_def mem_burst_entry_def)
  moreover have "allocated ?st = int k * ?b" using al by (simp add: emit_def)
  moreover have "new_events w ?st =
        ReadLimits # Log (MemBurstTarget ?want ?b (headroom_bytes c) (lim_src E (lim_reads w))) #
        t @ [AllocFailed ?n, Log (MemMemoryError (int k * ?b) ?want)]"
    using s'(3) al by (simp add: new_events_def emit_def mem_burst_entry_def)
  ultimately show ?thesis using r1 s'(4,5) by blast
qed

lemma allocate_slow_refusal:
  assumes h: "header_ok c" and b0: "0 \<le> block_bytes c"
    and sz: "min (block_bytes c) (want_bytes c) < 2 ^ 63"
    and kb: "int k * block_bytes c < want_bytes c" and fuel: "k < fuel"
    and g: "\<forall>j<k. alloc_ok E (allocs w + j) (block_bytes c)"
    and r: "\<not> alloc_ok E (allocs w + k) (min (block_bytes c) (want_bytes c - int k * block_bytes c))"
    and nh: "\<forall>j\<le>k. \<not> headroom_hit (lim_src E (lim_reads w + j)) (cur_src E (cur_reads w + 2 * j))
               (headroom_bytes c)"
    and p: "0 < k \<longrightarrow> py_sleep p = None"
  shows "\<exists>st t. allocate_slow_run fuel E c p w = Some (MemoryErrorCaught, st) \<and>
      blocks st = replicate k (block_bytes c) \<and> allocated st = int k * block_bytes c \<and>
      new_events w st =
        Log (MemSlowTarget (want_bytes c) (block_bytes c) p (headroom_bytes c)) #
        t @ [AllocFailed (min (block_bytes c) (want_bytes c - int k * block_bytes c)),
             Log (MemMemoryError (int k * block_bytes c) (want_bytes c)),
             Log (MemDone (int k * block_bytes c) k)] \<and>
      granted t = replicate k (block_bytes c) \<and> no_failure t"
proof -
  let ?b = "block_bytes c" and ?want = "want_bytes c"
  let ?n = "min ?b (?want - int k * ?b)"
  let ?body = "allocate_slow_body E c p" and ?e = "allocate_slow_entry c p w"
  define stage where "stage j s \<longleftrightarrow>
    allocs s = allocs w + j \<and> cur_reads s = cur_reads w + 2 * j \<and> lim_reads s = lim_reads w + j \<and>
    allocated s = int j * ?b" for j and s :: mstate
  from h have hw: "human ?want = None" by (simp add: header_ok_def)
  have step: "allocated s < ?want \<and>
      (\<exists>s'. ?body s = Continue s' \<and> stage (Suc j) s' \<and> blocks s' = blocks s @ [?b] \<and>
         allocated s' = allocated s + ?b \<and>
         (\<exists>u. trace s' = trace s @ u \<and> granted u = [?b] \<and> no_failure u))"
    if "j < k" "stage j s" for j s
  proof -
    from that(2) have st: "allocs s = allocs w + j" "cur_reads s = cur_reads w + 2 * j"
      "lim_reads s = lim_reads w + j" "allocated s = int j * ?b" by (simp_all add: stage_def)
    note fb = full_blocks[OF b0 kb that(1)]
    have lt: "allocated s < ?want" and nn: "0 \<le> allocated s" using fb st(4) by simp_all
    have nb: "next_block c s = ?b" using fb(2) st(4) by (simp add: next_block_def)
    from that(1) p have ps: "py_sleep p = None" by simp
    have "\<not> headroom_hit (lim_src E (lim_reads s)) (cur_src E (cur_reads s)) (headroom_bytes c)"
      using nh that(1) st(2,3) by simp
    moreover have "alloc_ok E (allocs s) (next_block c s)" using g that(1) st(1) nb by simp
    ultimately obtain s' where s': "?body s = Continue s'" "allocs s' = Suc (allocs s)"
      "cur_reads s' = cur_reads s + 2" "lim_reads s' = Suc (lim_reads s)"
      "blocks s' = blocks s @ [next_block c s]"
      "allocated s' = allocated s + next_block c s"
      "\<exists>u. trace s' = trace s @ u \<and> granted u = [next_block c s] \<and> no_failure u"
      using allocate_slow_body_granted[OF _ hw sz b0 nn lt _ ps] by blast
    have "stage (Suc j) s'" using s'(2,3,4,6) st nb by (simp add: stage_def algebra_simps)
    with lt s' nb show ?thesis by auto
  qed
  have final: "allocated s < ?want \<and>
      (\<exists>s'. ?body s = Break MemoryErrorCaught s' \<and> blocks s' = blocks s \<and>
         allocated s' = allocated s \<and>
         (\<exists>u. trace s' = trace s @ u @ [AllocFailed ?n] \<and> granted u = [] \<and> no_failure u))"
    if "stage k s" for s
  proof -
    from that have st: "allocs s = allocs w + k" "cur_reads s = cur_reads w + 2 * k"
      "lim_reads s = lim_reads w + k" "allocated s = int k * ?b" by (simp_all add: stage_def)
    have lt: "allocated s < ?want" and nn: "0 \<le> allocated s" using kb b0 st(4) by simp_all
    have nb: "next_block c s = ?n" using st(4) by (simp add: next_block_def)
    have "\<not> headroom_hit (lim_src E (lim_reads s)) (cur_src E (cur_reads s)) (headroom_bytes c)"
      using nh st(2,3) by simp
    moreover have "\<not> alloc_ok E (allocs s) (next_block c s)" using r st(1) nb by simp
    ultimately show ?thesis
      using allocate_slow_body_refused[OF _ hw sz b0 nn lt] lt nb by auto
  qed
  have "stage 0 ?e" by (simp add: stage_def allocate_slow_entry_def)
  from while_ends[of k stage "?want" ?body ?b MemoryErrorCaught "AllocFailed ?n", OF step final this _ fuel]
  obtain s' t where run: "while_allocating fuel ?want ?body ?e = Some (MemoryErrorCaught, s')"
    and s': "blocks s' = blocks ?e @ replicate k ?b" "allocated s' = allocated ?e + int k * ?b"
      "trace s' = trace ?e @ t @ [AllocFailed ?n]" "granted t = replicate k ?b" "no_failure t"
    by auto
  from s'(2) have al: "allocated s' = int k * ?b" by (simp add: allocate_slow_entry_def)
  from s'(1) have bl: "blocks s' = replicate k ?b" by (simp add: allocate_slow_entry_def)
  have ha: "human (allocated s') = None"
    using al kb b0 by (intro human_between[OF hw]) simp_all
  let ?st = "emit (Log (MemDone (allocated s') (length (blocks s'))))
               (emit (Log (MemMemoryError (allocated s') ?want)) s')"
  have r1: "allocate_slow_run fuel E c p w = Some (MemoryErrorCaught, ?st)"
    unfolding allocate_slow_run_entered[OF h] run using ha hw by (simp add: log_line_def emit_def)
  have "blocks ?st = replicate k ?b" using bl by (simp add: emit_def)
  moreover have "allocated ?st = int k * ?b" using al by (simp add: emit_def)
  moreover have "new_events w ?st =
        Log (MemSlowTarget ?want ?b p (headroom_bytes c)) #
        t @ [AllocFailed ?n, Log (MemMemoryError (int k * ?b) ?want), Log (MemDone (int k * ?b) k)]"
    using s'(3) al bl by (simp add: new_events_def emit_def allocate_slow_entry_def)
  ultimately show ?thesis using r1 s'(4,5) by blast
qed

text \<open>
  C5.  Take a run of \<^verbatim>\<open>mem_burst\<close> or \<^verbatim>\<open>allocate_slow\<close> in which the request number
  \<open>k + 1\<close> that \<^verbatim>\<open>bytearray\<close> makes to the platform is refused, that is, raises
  \<^verbatim>\<open>MemoryError\<close>: the header line was formatted, the \<open>k\<close> blocks before were granted (they
  are full blocks, the target not being reached), the headroom checks of the iterations
  up to this one passed, the sizes are ones that \<^verbatim>\<open>bytearray\<close> hands to the platform, and
  \<^verbatim>\<open>time.sleep\<close> accepted the pause after each block.  Then, with fuel for \<open>k + 1\<close>
  iterations, the function returns, and it returns the \<open>k\<close> blocks granted: the error does
  not reach the caller.  The running total is \<open>k\<close> block sizes, the refused block not
  included, and after the refused request the record with that partial total and the
  target is logged (followed in \<^verbatim>\<open>allocate_slow\<close> by the summary line).
\<close>

theorem memory_error_is_caught:
  "header_ok c \<and> 0 \<le> block_bytes c \<and> min (block_bytes c) (want_bytes c) < 2 ^ 63 \<and>
   int k * block_bytes c < want_bytes c \<and> k < fuel \<and>
   (\<forall>j<k. alloc_ok E (allocs w + j) (block_bytes c)) \<and>
   \<not> alloc_ok E (allocs w + k) (min (block_bytes c) (want_bytes c - int k * block_bytes c)) \<longrightarrow>
   ((\<forall>j\<le>k. \<not> headroom_hit (lim_src E (lim_reads w)) (cur_src E (cur_reads w + 2 * j))
              (headroom_bytes c)) \<longrightarrow>
      mem_burst fuel E c w = Some (Inr (replicate k (block_bytes c))) \<and>
      (\<exists>st t. mem_burst_run fuel E c w = Some (MemoryErrorCaught, st) \<and>
         blocks st = replicate k (block_bytes c) \<and> allocated st = int k * block_bytes c \<and>
         new_events w st =
           ReadLimits #
           Log (MemBurstTarget (want_bytes c) (block_bytes c) (headroom_bytes c)
                  (lim_src E (lim_reads w))) #
           t @ [AllocFailed (min (block_bytes c) (want_bytes c - int k * block_bytes c)),
                Log (MemMemoryError (int k * block_bytes c) (want_bytes c))] \<and>
         granted t = replicate k (block_bytes c) \<and> no_failure t)) \<and>
   ((\<forall>j\<le>k. \<not> headroom_hit (lim_src E (lim_reads w + j)) (cur_src E (cur_reads w + 2 * j))
              (headroom_bytes c)) \<and>
    (0 < k \<longrightarrow> py_sleep p = None) \<longrightarrow>
      allocate_slow fuel E c p w = Some (Inr (replicate k (block_bytes c))) \<and>
      (\<exists>st t. allocate_slow_run fuel E c p w = Some (MemoryErrorCaught, st) \<and>
         blocks st = replicate k (block_bytes c) \<and> allocated st = int k * block_bytes c \<and>
         new_events w st =
           Log (MemSlowTarget (want_bytes c) (block_bytes c) p (headroom_bytes c)) #
           t @ [AllocFailed (min (block_bytes c) (want_bytes c - int k * block_bytes c)),
                Log (MemMemoryError (int k * block_bytes c) (want_bytes c)),
                Log (MemDone (int k * block_bytes c) k)] \<and>
         granted t = replicate k (block_bytes c) \<and> no_failure t))"
proof (intro impI conjI; elim conjE)
  assume a: "header_ok c" "0 \<le> block_bytes c" "min (block_bytes c) (want_bytes c) < 2 ^ 63"
    "int k * block_bytes c < want_bytes c" "k < fuel"
    "\<forall>j<k. alloc_ok E (allocs w + j) (block_bytes c)"
    "\<not> alloc_ok E (allocs w + k) (min (block_bytes c) (want_bytes c - int k * block_bytes c))"
  {
    assume nh: "\<forall>j\<le>k. \<not> headroom_hit (lim_src E (lim_reads w)) (cur_src E (cur_reads w + 2 * j))
              (headroom_bytes c)"
    note m = mem_burst_refusal[OF a nh]
    from m show "\<exists>st t. mem_burst_run fuel E c w = Some (MemoryErrorCaught, st) \<and>
         blocks st = replicate k (block_bytes c) \<and> allocated st = int k * block_bytes c \<and>
         new_events w st =
           ReadLimits #
           Log (MemBurstTarget (want_bytes c) (block_bytes c) (headroom_bytes c)
                  (lim_src E (lim_reads w))) #
           t @ [AllocFailed (min (block_bytes c) (want_bytes c - int k * block_bytes c)),
                Log (MemMemoryError (int k * block_bytes c) (want_bytes c))] \<and>
         granted t = replicate k (block_bytes c) \<and> no_failure t" .
    from m obtain st where "mem_burst_run fuel E c w = Some (MemoryErrorCaught, st)"
      "blocks st = replicate k (block_bytes c)" by blast
    then show "mem_burst fuel E c w = Some (Inr (replicate k (block_bytes c)))"
      by (simp add: mem_burst_def returned_def)
  }
  {
    assume nh: "\<forall>j\<le>k. \<not> headroom_hit (lim_src E (lim_reads w + j)) (cur_src E (cur_reads w + 2 * j))
              (headroom_bytes c)"
      and p: "0 < k \<longrightarrow> py_sleep p = None"
    note m = allocate_slow_refusal[OF a nh p]
    from m show "\<exists>st t. allocate_slow_run fuel E c p w = Some (MemoryErrorCaught, st) \<and>
         blocks st = replicate k (block_bytes c) \<and> allocated st = int k * block_bytes c \<and>
         new_events w st =
           Log (MemSlowTarget (want_bytes c) (block_bytes c) p (headroom_bytes c)) #
           t @ [AllocFailed (min (block_bytes c) (want_bytes c - int k * block_bytes c)),
                Log (MemMemoryError (int k * block_bytes c) (want_bytes c)),
                Log (MemDone (int k * block_bytes c) k)] \<and>
         granted t = replicate k (block_bytes c) \<and> no_failure t" .
    from m obtain st where "allocate_slow_run fuel E c p w = Some (MemoryErrorCaught, st)"
      "blocks st = replicate k (block_bytes c)" by blast
    then show "allocate_slow fuel E c p w = Some (Inr (replicate k (block_bytes c)))"
      by (simp add: allocate_slow_def returned_def)
  }
qed

theorem memory_error_is_caught_witness:
  "mem_burst 5 exhausted_env \<lparr>want_bytes = 100, block_bytes = 30, headroom_bytes = 0\<rparr> fresh_world
     = Some (Inr [30, 30]) \<and>
   allocate_slow 5 exhausted_env \<lparr>want_bytes = 100, block_bytes = 30, headroom_bytes = 0\<rparr> 0 fresh_world
     = Some (Inr [30, 30])"
proof -
  let ?c = "\<lparr>want_bytes = 100, block_bytes = 30, headroom_bytes = 0\<rparr>"
  have h: "header_ok ?c \<and> 0 \<le> block_bytes ?c \<and> min (block_bytes ?c) (want_bytes ?c) < 2 ^ 63 \<and>
     int 2 * block_bytes ?c < want_bytes ?c \<and> 2 < (5::nat) \<and>
     (\<forall>j<2. alloc_ok exhausted_env (allocs fresh_world + j) (block_bytes ?c)) \<and>
     \<not> alloc_ok exhausted_env (allocs fresh_world + 2)
         (min (block_bytes ?c) (want_bytes ?c - int 2 * block_bytes ?c))"
    by (simp add: header_ok_def human_small exhausted_env_def fresh_world_def)
  have nh: "\<forall>j\<le>2. \<not> headroom_hit (lim_src exhausted_env (lim_reads fresh_world))
      (cur_src exhausted_env (cur_reads fresh_world + 2 * j)) (headroom_bytes ?c)"
    "\<forall>j\<le>2. \<not> headroom_hit (lim_src exhausted_env (lim_reads fresh_world + j))
      (cur_src exhausted_env (cur_reads fresh_world + 2 * j)) (headroom_bytes ?c)"
    by (simp_all add: headroom_hit_def lim_src_def exhausted_env_def)
  note inst = memory_error_is_caught[where c = ?c and k = 2 and fuel = 5 and E = exhausted_env
      and w = fresh_world and p = 0, THEN mp, OF h]
  have r: "replicate 2 (block_bytes ?c) = [30, 30]" by (simp add: numeral_2_eq_2)
  from inst[THEN conjunct1, THEN mp, OF nh(1), THEN conjunct1]
  have a: "mem_burst 5 exhausted_env ?c fresh_world = Some (Inr [30, 30])" unfolding r .
  from inst[THEN conjunct2, THEN mp, OF conjI, OF nh(2), THEN conjunct1]
  have b: "allocate_slow 5 exhausted_env ?c 0 fresh_world = Some (Inr [30, 30])"
    unfolding r by (simp add: py_sleep_zero)
  from a b show ?thesis by (rule conjI)
qed

subsection \<open>When the telemetry is read\<close>

text \<open>
  One execution of a body: the readings it makes, and its headroom test, on the reading
  of the current usage made at its start and on the limit it has at hand.
\<close>

lemma mem_burst_body_continue:
  assumes "mem_burst_body E c limit s = Continue s'"
  shows "\<not> headroom_hit limit (cur_src E (cur_reads s)) (headroom_bytes c)"
    "cur_reads s' = cur_reads s + 2" "lim_reads s' = lim_reads s"
    "length (blocks s') = Suc (length (blocks s))"
    "\<exists>u. trace s' = trace s @ u \<and> count_list u ReadLimits = 0"
  using assms by (auto simp: mem_burst_body_def body_defs split: body_splits)

lemma mem_burst_body_break:
  assumes "mem_burst_body E c limit s = Break x s'"
  shows "lim_reads s' = lim_reads s"
    "\<exists>u. trace s' = trace s @ u \<and> count_list u ReadLimits = 0"
    "x = HeadroomStopped \<longrightarrow>
       headroom_hit limit (cur_src E (cur_reads s)) (headroom_bytes c) \<and> blocks s' = blocks s"
    "x = MemoryErrorCaught \<longrightarrow>
       \<not> headroom_hit limit (cur_src E (cur_reads s)) (headroom_bytes c) \<and> blocks s' = blocks s"
    "blocks s' = blocks s \<or>
       (length (blocks s') = Suc (length (blocks s)) \<and>
        \<not> headroom_hit limit (cur_src E (cur_reads s)) (headroom_bytes c))"
    "x \<noteq> Completed"
  using assms by (auto simp: mem_burst_body_def body_defs split: body_splits)

lemma allocate_slow_body_continue:
  assumes "allocate_slow_body E c p s = Continue s'"
  shows "\<not> headroom_hit (lim_src E (lim_reads s)) (cur_src E (cur_reads s)) (headroom_bytes c)"
    "cur_reads s' = cur_reads s + 2" "lim_reads s' = Suc (lim_reads s)"
    "length (blocks s') = Suc (length (blocks s))"
    "\<exists>u. trace s' = trace s @ u \<and> count_list u ReadLimits = 1"
  using assms by (auto simp: allocate_slow_body_def body_defs split: body_splits)

lemma allocate_slow_body_break:
  assumes "allocate_slow_body E c p s = Break x s'"
  shows "lim_reads s' = Suc (lim_reads s)"
    "\<exists>u. trace s' = trace s @ u \<and> count_list u ReadLimits = 1"
    "x = HeadroomStopped \<longrightarrow>
       headroom_hit (lim_src E (lim_reads s)) (cur_src E (cur_reads s)) (headroom_bytes c) \<and>
       blocks s' = blocks s"
    "x = MemoryErrorCaught \<longrightarrow>
       \<not> headroom_hit (lim_src E (lim_reads s)) (cur_src E (cur_reads s)) (headroom_bytes c) \<and>
       blocks s' = blocks s"
    "blocks s' = blocks s \<or>
       (length (blocks s') = Suc (length (blocks s)) \<and>
        \<not> headroom_hit (lim_src E (lim_reads s)) (cur_src E (cur_reads s)) (headroom_bytes c))"
    "x \<noteq> Completed"
  using assms by (auto simp: allocate_slow_body_def body_defs split: body_splits)

text \<open>
  The loops: every iteration that retained a block passed its test, a loop left by the
  headroom \<^verbatim>\<open>break\<close> failed the test of its last iteration, and a loop left by a
  \<^verbatim>\<open>MemoryError\<close> passed it.
\<close>

lemma mem_burst_loop_checks:
  assumes "while_allocating fuel want (mem_burst_body E c (lim_src E (lim_reads w)))
             (mem_burst_entry E c w) = Some (x, s)"
  shows "(\<forall>j<length (blocks s). \<not> burst_check E c w j) \<and>
    (x = HeadroomStopped \<longrightarrow> burst_check E c w (length (blocks s))) \<and>
    (x = MemoryErrorCaught \<longrightarrow> \<not> burst_check E c w (length (blocks s))) \<and>
    lim_reads s = Suc (lim_reads w) \<and>
    (\<exists>t. trace s = trace (mem_burst_entry E c w) @ t \<and> count_list t ReadLimits = 0)"
  using assms
proof (rule while_allocating_rule[where
      I = "\<lambda>s. cur_reads s = cur_reads w + 2 * length (blocks s) \<and>
             lim_reads s = Suc (lim_reads w) \<and>
             (\<forall>j<length (blocks s). \<not> burst_check E c w j) \<and>
             (\<exists>t. trace s = trace (mem_burst_entry E c w) @ t \<and> count_list t ReadLimits = 0)"])
  show "cur_reads (mem_burst_entry E c w) = cur_reads w + 2 * length (blocks (mem_burst_entry E c w)) \<and>
      lim_reads (mem_burst_entry E c w) = Suc (lim_reads w) \<and>
      (\<forall>j<length (blocks (mem_burst_entry E c w)). \<not> burst_check E c w j) \<and>
      (\<exists>t. trace (mem_burst_entry E c w) = trace (mem_burst_entry E c w) @ t \<and>
           count_list t ReadLimits = 0)"
    by (simp add: mem_burst_entry_def)
next
  fix a b
  assume I: "cur_reads a = cur_reads w + 2 * length (blocks a) \<and>
      lim_reads a = Suc (lim_reads w) \<and>
      (\<forall>j<length (blocks a). \<not> burst_check E c w j) \<and>
      (\<exists>t. trace a = trace (mem_burst_entry E c w) @ t \<and> count_list t ReadLimits = 0)"
    and body: "mem_burst_body E c (lim_src E (lim_reads w)) a = Continue b"
  note f = mem_burst_body_continue[OF body]
  from f(1) I have "\<not> burst_check E c w (length (blocks a))" by (simp add: burst_check_def)
  with I f(4) have "\<forall>j<length (blocks b). \<not> burst_check E c w j" by (simp add: less_Suc_eq)
  moreover from I f(5) have "\<exists>t. trace b = trace (mem_burst_entry E c w) @ t \<and> count_list t ReadLimits = 0"
    by auto
  ultimately show "cur_reads b = cur_reads w + 2 * length (blocks b) \<and>
      lim_reads b = Suc (lim_reads w) \<and>
      (\<forall>j<length (blocks b). \<not> burst_check E c w j) \<and>
      (\<exists>t. trace b = trace (mem_burst_entry E c w) @ t \<and> count_list t ReadLimits = 0)"
    using I f(2,3,4) by simp
next
  fix a b e
  assume I: "cur_reads a = cur_reads w + 2 * length (blocks a) \<and>
      lim_reads a = Suc (lim_reads w) \<and>
      (\<forall>j<length (blocks a). \<not> burst_check E c w j) \<and>
      (\<exists>t. trace a = trace (mem_burst_entry E c w) @ t \<and> count_list t ReadLimits = 0)"
    and body: "mem_burst_body E c (lim_src E (lim_reads w)) a = Break e b"
  note f = mem_burst_body_break[OF body]
  have h: "headroom_hit (lim_src E (lim_reads w)) (cur_src E (cur_reads a)) (headroom_bytes c)
      = burst_check E c w (length (blocks a))"
    using I by (simp add: burst_check_def)
  from I f(2) have t: "\<exists>t. trace b = trace (mem_burst_entry E c w) @ t \<and> count_list t ReadLimits = 0"
    by auto
  from f(5) I have "\<forall>j<length (blocks b). \<not> burst_check E c w j"
    unfolding h by (auto simp: less_Suc_eq)
  moreover from f(3) have "e = HeadroomStopped \<longrightarrow> burst_check E c w (length (blocks b))"
    unfolding h by auto
  moreover from f(4) have "e = MemoryErrorCaught \<longrightarrow> \<not> burst_check E c w (length (blocks b))"
    unfolding h by auto
  ultimately show "(\<forall>j<length (blocks b). \<not> burst_check E c w j) \<and>
    (e = HeadroomStopped \<longrightarrow> burst_check E c w (length (blocks b))) \<and>
    (e = MemoryErrorCaught \<longrightarrow> \<not> burst_check E c w (length (blocks b))) \<and>
    lim_reads b = Suc (lim_reads w) \<and>
    (\<exists>t. trace b = trace (mem_burst_entry E c w) @ t \<and> count_list t ReadLimits = 0)"
    using I f(1) t by simp
next
  fix a
  assume "cur_reads a = cur_reads w + 2 * length (blocks a) \<and>
      lim_reads a = Suc (lim_reads w) \<and>
      (\<forall>j<length (blocks a). \<not> burst_check E c w j) \<and>
      (\<exists>t. trace a = trace (mem_burst_entry E c w) @ t \<and> count_list t ReadLimits = 0)"
  then show "(\<forall>j<length (blocks a). \<not> burst_check E c w j) \<and>
    (Completed = HeadroomStopped \<longrightarrow> burst_check E c w (length (blocks a))) \<and>
    (Completed = MemoryErrorCaught \<longrightarrow> \<not> burst_check E c w (length (blocks a))) \<and>
    lim_reads a = Suc (lim_reads w) \<and>
    (\<exists>t. trace a = trace (mem_burst_entry E c w) @ t \<and> count_list t ReadLimits = 0)"
    by simp
qed

lemma allocate_slow_loop_checks:
  assumes "while_allocating fuel want (allocate_slow_body E c p) (allocate_slow_entry c p w)
             = Some (x, s)"
  shows "(\<forall>j<length (blocks s). \<not> slow_check E c w j) \<and>
    (x = HeadroomStopped \<longrightarrow> slow_check E c w (length (blocks s))) \<and>
    (x = MemoryErrorCaught \<longrightarrow> \<not> slow_check E c w (length (blocks s))) \<and>
    (x = Completed \<longrightarrow> lim_reads s = lim_reads w + length (blocks s)) \<and>
    (x = HeadroomStopped \<or> x = MemoryErrorCaught \<longrightarrow>
       lim_reads s = lim_reads w + length (blocks s) + 1) \<and>
    (\<exists>t. trace s = trace (allocate_slow_entry c p w) @ t \<and>
         count_list t ReadLimits = lim_reads s - lim_reads w)"
  using assms
proof (rule while_allocating_rule[where
      I = "\<lambda>s. cur_reads s = cur_reads w + 2 * length (blocks s) \<and>
             lim_reads s = lim_reads w + length (blocks s) \<and>
             (\<forall>j<length (blocks s). \<not> slow_check E c w j) \<and>
             (\<exists>t. trace s = trace (allocate_slow_entry c p w) @ t \<and>
                  count_list t ReadLimits = length (blocks s))"])
  show "cur_reads (allocate_slow_entry c p w) =
        cur_reads w + 2 * length (blocks (allocate_slow_entry c p w)) \<and>
      lim_reads (allocate_slow_entry c p w) = lim_reads w + length (blocks (allocate_slow_entry c p w)) \<and>
      (\<forall>j<length (blocks (allocate_slow_entry c p w)). \<not> slow_check E c w j) \<and>
      (\<exists>t. trace (allocate_slow_entry c p w) = trace (allocate_slow_entry c p w) @ t \<and>
           count_list t ReadLimits = length (blocks (allocate_slow_entry c p w)))"
    by (simp add: allocate_slow_entry_def)
next
  fix a b
  assume I: "cur_reads a = cur_reads w + 2 * length (blocks a) \<and>
      lim_reads a = lim_reads w + length (blocks a) \<and>
      (\<forall>j<length (blocks a). \<not> slow_check E c w j) \<and>
      (\<exists>t. trace a = trace (allocate_slow_entry c p w) @ t \<and>
           count_list t ReadLimits = length (blocks a))"
    and body: "allocate_slow_body E c p a = Continue b"
  note f = allocate_slow_body_continue[OF body]
  from f(1) I have "\<not> slow_check E c w (length (blocks a))" by (simp add: slow_check_def)
  with I f(4) have "\<forall>j<length (blocks b). \<not> slow_check E c w j" by (simp add: less_Suc_eq)
  moreover from I f(4,5) have "\<exists>t. trace b = trace (allocate_slow_entry c p w) @ t \<and>
      count_list t ReadLimits = length (blocks b)"
    by auto
  ultimately show "cur_reads b = cur_reads w + 2 * length (blocks b) \<and>
      lim_reads b = lim_reads w + length (blocks b) \<and>
      (\<forall>j<length (blocks b). \<not> slow_check E c w j) \<and>
      (\<exists>t. trace b = trace (allocate_slow_entry c p w) @ t \<and>
           count_list t ReadLimits = length (blocks b))"
    using I f(2,3,4) by simp
next
  fix a b e
  assume I: "cur_reads a = cur_reads w + 2 * length (blocks a) \<and>
      lim_reads a = lim_reads w + length (blocks a) \<and>
      (\<forall>j<length (blocks a). \<not> slow_check E c w j) \<and>
      (\<exists>t. trace a = trace (allocate_slow_entry c p w) @ t \<and>
           count_list t ReadLimits = length (blocks a))"
    and body: "allocate_slow_body E c p a = Break e b"
  note f = allocate_slow_body_break[OF body]
  have h: "headroom_hit (lim_src E (lim_reads a)) (cur_src E (cur_reads a)) (headroom_bytes c)
      = slow_check E c w (length (blocks a))"
    using I by (simp add: slow_check_def)
  from I f(1,2) have t: "\<exists>t. trace b = trace (allocate_slow_entry c p w) @ t \<and>
      count_list t ReadLimits = lim_reads b - lim_reads w"
    by auto
  from f(5) I have "\<forall>j<length (blocks b). \<not> slow_check E c w j"
    unfolding h by (auto simp: less_Suc_eq)
  moreover from f(3) have "e = HeadroomStopped \<longrightarrow> slow_check E c w (length (blocks b))"
    unfolding h by auto
  moreover from f(4) have "e = MemoryErrorCaught \<longrightarrow> \<not> slow_check E c w (length (blocks b))"
    unfolding h by auto
  moreover from f(1,3,4) I
  have "e = HeadroomStopped \<or> e = MemoryErrorCaught \<longrightarrow> lim_reads b = lim_reads w + length (blocks b) + 1"
    by auto
  ultimately show "(\<forall>j<length (blocks b). \<not> slow_check E c w j) \<and>
    (e = HeadroomStopped \<longrightarrow> slow_check E c w (length (blocks b))) \<and>
    (e = MemoryErrorCaught \<longrightarrow> \<not> slow_check E c w (length (blocks b))) \<and>
    (e = Completed \<longrightarrow> lim_reads b = lim_reads w + length (blocks b)) \<and>
    (e = HeadroomStopped \<or> e = MemoryErrorCaught \<longrightarrow>
       lim_reads b = lim_reads w + length (blocks b) + 1) \<and>
    (\<exists>t. trace b = trace (allocate_slow_entry c p w) @ t \<and>
         count_list t ReadLimits = lim_reads b - lim_reads w)"
    using f(6) t by simp
next
  fix a
  assume "cur_reads a = cur_reads w + 2 * length (blocks a) \<and>
      lim_reads a = lim_reads w + length (blocks a) \<and>
      (\<forall>j<length (blocks a). \<not> slow_check E c w j) \<and>
      (\<exists>t. trace a = trace (allocate_slow_entry c p w) @ t \<and>
           count_list t ReadLimits = length (blocks a))"
  then show "(\<forall>j<length (blocks a). \<not> slow_check E c w j) \<and>
    (Completed = HeadroomStopped \<longrightarrow> slow_check E c w (length (blocks a))) \<and>
    (Completed = MemoryErrorCaught \<longrightarrow> \<not> slow_check E c w (length (blocks a))) \<and>
    (Completed = Completed \<longrightarrow> lim_reads a = lim_reads w + length (blocks a)) \<and>
    (Completed = HeadroomStopped \<or> Completed = MemoryErrorCaught \<longrightarrow>
       lim_reads a = lim_reads w + length (blocks a) + 1) \<and>
    (\<exists>t. trace a = trace (allocate_slow_entry c p w) @ t \<and>
         count_list t ReadLimits = lim_reads a - lim_reads w)"
    by auto
qed

text \<open>A run and its loop: what the lines around the loop add.\<close>

lemma mem_burst_run_cases:
  assumes "mem_burst_run fuel E c w = Some (x, st)"
  shows "(x = Raised OverflowError \<and> blocks st = [] \<and> lim_reads st = Suc (lim_reads w) \<and>
          trace st = trace w @ [ReadLimits]) \<or>
    (\<exists>x' s u. while_allocating fuel (want_bytes c) (mem_burst_body E c (lim_src E (lim_reads w)))
            (mem_burst_entry E c w) = Some (x', s) \<and>
        blocks st = blocks s \<and> lim_reads st = lim_reads s \<and>
        trace st = trace s @ u \<and> count_list u ReadLimits = 0 \<and>
        (x = x' \<or> x = Raised OverflowError))"
  using assms
  by (auto simp: mem_burst_run_def mem_burst_entry_def read_cgroup_limits_def log_line_def
        Let_def emit_def
      split: option.splits prod.splits loop_exit.splits sum.splits if_splits)

lemma allocate_slow_run_cases:
  assumes "allocate_slow_run fuel E c p w = Some (x, st)"
  shows "(x = Raised OverflowError \<and> blocks st = [] \<and> lim_reads st = lim_reads w \<and>
          trace st = trace w) \<or>
    (\<exists>x' s u. while_allocating fuel (want_bytes c) (allocate_slow_body E c p)
            (allocate_slow_entry c p w) = Some (x', s) \<and>
        blocks st = blocks s \<and> lim_reads st = lim_reads s \<and>
        trace st = trace s @ u \<and> count_list u ReadLimits = 0 \<and>
        (x = x' \<or> x = Raised OverflowError))"
  using assms
  by (auto simp: allocate_slow_run_def allocate_slow_entry_def log_line_def Let_def emit_def
      split: option.splits prod.splits loop_exit.splits sum.splits if_splits)

lemma count_new_events:
  assumes "trace st = trace w @ t"
  shows "new_events w st = t"
  using assms by (simp add: new_events_def)

lemma mem_burst_run_checks:
  assumes run: "mem_burst_run fuel E c w = Some (x, st)"
  shows "(\<forall>j<length (blocks st). \<not> burst_check E c w j) \<and>
    (x = HeadroomStopped \<longrightarrow> burst_check E c w (length (blocks st))) \<and>
    (x = MemoryErrorCaught \<longrightarrow> \<not> burst_check E c w (length (blocks st))) \<and>
    lim_reads st = Suc (lim_reads w) \<and>
    count_list (new_events w st) ReadLimits = 1"
proof -
  from mem_burst_run_cases[OF run] consider
    (header) "x = Raised OverflowError" "blocks st = []" "lim_reads st = Suc (lim_reads w)"
      "trace st = trace w @ [ReadLimits]" |
    (loop) x' s u where
      "while_allocating fuel (want_bytes c) (mem_burst_body E c (lim_src E (lim_reads w)))
            (mem_burst_entry E c w) = Some (x', s)"
      "blocks st = blocks s" "lim_reads st = lim_reads s" "trace st = trace s @ u"
      "count_list u ReadLimits = 0" "x = x' \<or> x = Raised OverflowError"
    by blast
  then show ?thesis
  proof cases
    case header
    from count_new_events[OF header(4)] header(1,2,3) show ?thesis by simp
  next
    case loop
    from mem_burst_loop_checks[OF loop(1)] obtain t where
      k: "\<forall>j<length (blocks s). \<not> burst_check E c w j"
        "x' = HeadroomStopped \<longrightarrow> burst_check E c w (length (blocks s))"
        "x' = MemoryErrorCaught \<longrightarrow> \<not> burst_check E c w (length (blocks s))"
        "lim_reads s = Suc (lim_reads w)"
      and t: "trace s = trace (mem_burst_entry E c w) @ t" "count_list t ReadLimits = 0"
      by blast
    let ?h = "[ReadLimits,
      Log (MemBurstTarget (want_bytes c) (block_bytes c) (headroom_bytes c) (lim_src E (lim_reads w)))]"
    have "trace st = trace w @ (?h @ t @ u)" using loop(4) t(1) by (simp add: mem_burst_entry_def)
    from count_new_events[OF this] have "count_list (new_events w st) ReadLimits = 1"
      using t(2) loop(5) by simp
    with k loop(2,3,6) show ?thesis by auto
  qed
qed

lemma allocate_slow_run_checks:
  assumes run: "allocate_slow_run fuel E c p w = Some (x, st)"
  shows "(\<forall>j<length (blocks st). \<not> slow_check E c w j) \<and>
    (x = HeadroomStopped \<longrightarrow> slow_check E c w (length (blocks st))) \<and>
    (x = MemoryErrorCaught \<longrightarrow> \<not> slow_check E c w (length (blocks st))) \<and>
    (x = Completed \<longrightarrow> lim_reads st = lim_reads w + length (blocks st)) \<and>
    (x = HeadroomStopped \<or> x = MemoryErrorCaught \<longrightarrow>
       lim_reads st = lim_reads w + length (blocks st) + 1) \<and>
    count_list (new_events w st) ReadLimits = lim_reads st - lim_reads w"
proof -
  from allocate_slow_run_cases[OF run] consider
    (header) "x = Raised OverflowError" "blocks st = []" "lim_reads st = lim_reads w"
      "trace st = trace w" |
    (loop) x' s u where
      "while_allocating fuel (want_bytes c) (allocate_slow_body E c p)
            (allocate_slow_entry c p w) = Some (x', s)"
      "blocks st = blocks s" "lim_reads st = lim_reads s" "trace st = trace s @ u"
      "count_list u ReadLimits = 0" "x = x' \<or> x = Raised OverflowError"
    by blast
  then show ?thesis
  proof cases
    case header
    from header(4) have "trace st = trace w @ []" by simp
    from count_new_events[OF this] header(1,2,3) show ?thesis by simp
  next
    case loop
    from allocate_slow_loop_checks[OF loop(1)] obtain t where
      k: "\<forall>j<length (blocks s). \<not> slow_check E c w j"
        "x' = HeadroomStopped \<longrightarrow> slow_check E c w (length (blocks s))"
        "x' = MemoryErrorCaught \<longrightarrow> \<not> slow_check E c w (length (blocks s))"
        "x' = Completed \<longrightarrow> lim_reads s = lim_reads w + length (blocks s)"
        "x' = HeadroomStopped \<or> x' = MemoryErrorCaught \<longrightarrow>
           lim_reads s = lim_reads w + length (blocks s) + 1"
      and t: "trace s = trace (allocate_slow_entry c p w) @ t"
        "count_list t ReadLimits = lim_reads s - lim_reads w"
      by blast
    let ?h = "[Log (MemSlowTarget (want_bytes c) (block_bytes c) p (headroom_bytes c))]"
    have "trace st = trace w @ (?h @ t @ u)" using loop(4) t(1) by (simp add: allocate_slow_entry_def)
    from count_new_events[OF this]
    have "count_list (new_events w st) ReadLimits = lim_reads st - lim_reads w"
      using t(2) loop(3,5) by simp
    with k loop(2,3,6) show ?thesis by auto
  qed
qed

lemma mem_burst_body_env:
  assumes "cur_src E' = cur_src E" "alloc_ok E' = alloc_ok E"
  shows "mem_burst_body E' c limit = mem_burst_body E c limit"
  using assms by (intro ext) (simp add: mem_burst_body_def body_defs)

lemma mem_burst_run_env:
  assumes "cur_src E' = cur_src E" "alloc_ok E' = alloc_ok E"
    "lim_src E' (lim_reads w) = lim_src E (lim_reads w)"
  shows "mem_burst_run fuel E' c w = mem_burst_run fuel E c w"
  using assms(3) mem_burst_body_env[OF assms(1,2)]
  by (simp add: mem_burst_run_def read_cgroup_limits_def Let_def split: sum.splits)

text \<open>
  C3, as the code has it.  In \<^verbatim>\<open>allocate_slow\<close> the headroom test of every iteration is
  on readings made for that iteration: iteration \<open>j\<close> tests the \<open>j\<close>-th limit read of the
  run against the usage read at its start, and the run makes one limit read per
  iteration.  In \<^verbatim>\<open>mem_burst\<close> the usage is likewise read anew for every test, but the
  limit is read once, before the loop, and that one value is what every test of the run
  is made on: a run makes exactly one limit read, and it does not depend on what later
  limit reads would return.  In both functions every iteration that retained a block
  passed its test, a run stopped by the headroom check failed the test of the iteration
  after its last block, and a run stopped by a \<^verbatim>\<open>MemoryError\<close> passed that test.
\<close>

theorem limit_sampling:
  "(allocate_slow_run fuel E c p w = Some (x, st) \<longrightarrow>
      (\<forall>j<length (blocks st). \<not> slow_check E c w j) \<and>
      (x = HeadroomStopped \<longrightarrow> slow_check E c w (length (blocks st))) \<and>
      (x = MemoryErrorCaught \<longrightarrow> \<not> slow_check E c w (length (blocks st))) \<and>
      (x = Completed \<longrightarrow> lim_reads st = lim_reads w + length (blocks st)) \<and>
      (x = HeadroomStopped \<or> x = MemoryErrorCaught \<longrightarrow>
         lim_reads st = lim_reads w + length (blocks st) + 1) \<and>
      count_list (new_events w st) ReadLimits = lim_reads st - lim_reads w) \<and>
   (mem_burst_run fuel E c w = Some (x, st) \<longrightarrow>
      (\<forall>j<length (blocks st). \<not> burst_check E c w j) \<and>
      (x = HeadroomStopped \<longrightarrow> burst_check E c w (length (blocks st))) \<and>
      (x = MemoryErrorCaught \<longrightarrow> \<not> burst_check E c w (length (blocks st))) \<and>
      lim_reads st = Suc (lim_reads w) \<and>
      count_list (new_events w st) ReadLimits = 1) \<and>
   (cur_src E' = cur_src E \<and> alloc_ok E' = alloc_ok E \<and>
    lim_src E' (lim_reads w) = lim_src E (lim_reads w) \<longrightarrow>
      mem_burst_run fuel E' c w = mem_burst_run fuel E c w)"
proof (rule conjI[OF impI conjI[OF impI impI]])
  assume "allocate_slow_run fuel E c p w = Some (x, st)"
  from allocate_slow_run_checks[OF this]
  show "(\<forall>j<length (blocks st). \<not> slow_check E c w j) \<and>
      (x = HeadroomStopped \<longrightarrow> slow_check E c w (length (blocks st))) \<and>
      (x = MemoryErrorCaught \<longrightarrow> \<not> slow_check E c w (length (blocks st))) \<and>
      (x = Completed \<longrightarrow> lim_reads st = lim_reads w + length (blocks st)) \<and>
      (x = HeadroomStopped \<or> x = MemoryErrorCaught \<longrightarrow>
         lim_reads st = lim_reads w + length (blocks st) + 1) \<and>
      count_list (new_events w st) ReadLimits = lim_reads st - lim_reads w" .
next
  assume "mem_burst_run fuel E c w = Some (x, st)"
  from mem_burst_run_checks[OF this]
  show "(\<forall>j<length (blocks st). \<not> burst_check E c w j) \<and>
      (x = HeadroomStopped \<longrightarrow> burst_check E c w (length (blocks st))) \<and>
      (x = MemoryErrorCaught \<longrightarrow> \<not> burst_check E c w (length (blocks st))) \<and>
      lim_reads st = Suc (lim_reads w) \<and>
      count_list (new_events w st) ReadLimits = 1" .
next
  assume "cur_src E' = cur_src E \<and> alloc_ok E' = alloc_ok E \<and>
    lim_src E' (lim_reads w) = lim_src E (lim_reads w)"
  then show "mem_burst_run fuel E' c w = mem_burst_run fuel E c w"
    by (intro mem_burst_run_env) blast+
qed

theorem limit_sampling_witness:
  "slow_check drift_env \<lparr>want_bytes = 20, block_bytes = 10, headroom_bytes = 0\<rparr> fresh_world 1 \<and>
   lim_reads (snd (the (allocate_slow_run 3 drift_env
       \<lparr>want_bytes = 20, block_bytes = 10, headroom_bytes = 0\<rparr> 0 fresh_world))) = 2 \<and>
   \<not> burst_check drift_env \<lparr>want_bytes = 20, block_bytes = 10, headroom_bytes = 0\<rparr> fresh_world 1 \<and>
   lim_reads (snd (the (mem_burst_run 3 drift_env
       \<lparr>want_bytes = 20, block_bytes = 10, headroom_bytes = 0\<rparr> fresh_world))) = 1 \<and>
   mem_burst_run 3 quiet_env \<lparr>want_bytes = 20, block_bytes = 10, headroom_bytes = 0\<rparr> fresh_world =
   mem_burst_run 3 (quiet_env\<lparr>mem_max := (\<lambda>k. if k = 0 then None else Some 0)\<rparr>)
     \<lparr>want_bytes = 20, block_bytes = 10, headroom_bytes = 0\<rparr> fresh_world"
proof -
  let ?c = "\<lparr>want_bytes = 20, block_bytes = 10, headroom_bytes = 0\<rparr>"
  let ?E = "quiet_env\<lparr>mem_max := (\<lambda>k. if k = 0 then None else Some 0)\<rparr>"
  define s1 where "s1 = snd (the (allocate_slow_run 3 drift_env ?c 0 fresh_world))"
  define s2 where "s2 = snd (the (mem_burst_run 3 drift_env ?c fresh_world))"
  have r1: "allocate_slow_run 3 drift_env ?c 0 fresh_world = Some (HeadroomStopped, s1)"
    unfolding s1_def by code_simp
  have b1: "length (blocks s1) = 1" unfolding s1_def by code_simp
  have r2: "mem_burst_run 3 drift_env ?c fresh_world = Some (Completed, s2)"
    unfolding s2_def by code_simp
  have b2: "length (blocks s2) = 2" unfolding s2_def by code_simp
  have w0: "lim_reads fresh_world = 0" by (simp add: fresh_world_def)
  note a = limit_sampling[of 3 drift_env ?c 0 fresh_world HeadroomStopped s1, THEN conjunct1,
      THEN mp, OF r1]
  from a b1 w0 have a1: "slow_check drift_env ?c fresh_world 1" and a2: "lim_reads s1 = 2"
    by simp_all
  note b = limit_sampling[of 3 drift_env ?c 0 fresh_world Completed s2, THEN conjunct2,
      THEN conjunct1, THEN mp, OF r2]
  from b b2 w0 have b3: "\<not> burst_check drift_env ?c fresh_world 1" and b4: "lim_reads s2 = 1"
    by simp_all
  have e: "cur_src ?E = cur_src quiet_env \<and> alloc_ok ?E = alloc_ok quiet_env \<and>
      lim_src ?E (lim_reads fresh_world) = lim_src quiet_env (lim_reads fresh_world)"
    by (simp add: quiet_env_def fresh_world_def cur_src_def lim_src_def fun_eq_iff)
  note d = limit_sampling[where E' = ?E and E = quiet_env and w = fresh_world and fuel = 3 and c = ?c,
      THEN conjunct2, THEN conjunct2, THEN mp, OF e, symmetric]
  from a1 a2 b3 b4 d show ?thesis unfolding s1_def s2_def by blast
qed

text \<open>
  C3 as worded fails for \<^verbatim>\<open>mem_burst\<close>.  The limit drops from 1000 to 100 after the
  first read while the usage stays at 150: a limit read made for the second iteration
  would stop the loop (as it does in \<^verbatim>\<open>allocate_slow\<close>), but \<^verbatim>\<open>mem_burst\<close> made a
  single limit read and allocates both blocks.
\<close>

theorem limit_cached_in_burst:
  "mem_burst 2 drift_env \<lparr>want_bytes = 20, block_bytes = 10, headroom_bytes = 0\<rparr> fresh_world
     = Some (Inr [10, 10]) \<and>
   lim_reads (snd (the (mem_burst_run 2 drift_env
       \<lparr>want_bytes = 20, block_bytes = 10, headroom_bytes = 0\<rparr> fresh_world))) = 1 \<and>
   headroom_hit (lim_src drift_env 1) (cur_src drift_env 2) 0 \<and>
   allocate_slow 2 drift_env \<lparr>want_bytes = 20, block_bytes = 10, headroom_bytes = 0\<rparr> 0 fresh_world
     = Some (Inr [10])"
  by code_simp

subsection \<open>The headroom stop\<close>

lemma mem_burst_body_stopped:
  assumes "headroom_hit limit (cur_src E (cur_reads s)) (headroom_bytes c)"
  shows "\<exists>s'. mem_burst_body E c limit s = Break HeadroomStopped s' \<and>
      blocks s' = blocks s \<and> allocated s' = allocated s \<and>
      (\<exists>u. trace s' = trace s @ u @ [Log (MemHeadroomStop (cur_src E (cur_reads s)) limit)] \<and>
           granted u = [] \<and> no_failure u)"
  using assms by (simp add: mem_burst_body_def body_defs)

lemma allocate_slow_body_stopped:
  assumes "headroom_hit (lim_src E (lim_reads s)) (cur_src E (cur_reads s)) (headroom_bytes c)"
  shows "\<exists>s'. allocate_slow_body E c p s = Break HeadroomStopped s' \<and>
      blocks s' = blocks s \<and> allocated s' = allocated s \<and>
      (\<exists>u. trace s' = trace s @ u @
             [Log (MemHeadroomStop (cur_src E (cur_reads s)) (lim_src E (lim_reads s)))] \<and>
           granted u = [] \<and> no_failure u)"
  using assms by (simp add: allocate_slow_body_def body_defs)

text \<open>
  A run in which the first \<open>k\<close> iterations pass the headroom test and are granted their
  block, and iteration \<open>k\<close> fails the test.
\<close>

lemma mem_burst_headroom:
  assumes h: "header_ok c" and b0: "0 \<le> block_bytes c"
    and sz: "min (block_bytes c) (want_bytes c) < 2 ^ 63"
    and kb: "int k * block_bytes c < want_bytes c" and fuel: "k < fuel"
    and g: "\<forall>j<k. alloc_ok E (allocs w + j) (block_bytes c)"
    and nh: "\<forall>j<k. \<not> burst_check E c w j" and hit: "burst_check E c w k"
  shows "\<exists>st t. mem_burst_run fuel E c w = Some (HeadroomStopped, st) \<and>
      blocks st = replicate k (block_bytes c) \<and> allocated st = int k * block_bytes c \<and>
      new_events w st =
        ReadLimits #
        Log (MemBurstTarget (want_bytes c) (block_bytes c) (headroom_bytes c) (lim_src E (lim_reads w))) #
        t @ [Log (MemHeadroomStop (cur_src E (cur_reads w + 2 * k)) (lim_src E (lim_reads w)))] \<and>
      granted t = replicate k (block_bytes c) \<and> no_failure t"
proof -
  let ?b = "block_bytes c" and ?want = "want_bytes c"
  let ?ev = "Log (MemHeadroomStop (cur_src E (cur_reads w + 2 * k)) (lim_src E (lim_reads w)))"
  let ?body = "mem_burst_body E c (lim_src E (lim_reads w))" and ?e = "mem_burst_entry E c w"
  define stage where "stage j s \<longleftrightarrow>
    allocs s = allocs w + j \<and> cur_reads s = cur_reads w + 2 * j \<and> allocated s = int j * ?b"
    for j and s :: mstate
  from h have hw: "human ?want = None" by (simp add: header_ok_def)
  have step: "allocated s < ?want \<and>
      (\<exists>s'. ?body s = Continue s' \<and> stage (Suc j) s' \<and> blocks s' = blocks s @ [?b] \<and>
         allocated s' = allocated s + ?b \<and>
         (\<exists>u. trace s' = trace s @ u \<and> granted u = [?b] \<and> no_failure u))"
    if "j < k" "stage j s" for j s
  proof -
    from that(2) have st: "allocs s = allocs w + j" "cur_reads s = cur_reads w + 2 * j"
      "allocated s = int j * ?b" by (simp_all add: stage_def)
    note fb = full_blocks[OF b0 kb that(1)]
    have lt: "allocated s < ?want" and nn: "0 \<le> allocated s" using fb st(3) by simp_all
    have nb: "next_block c s = ?b" using fb(2) st(3) by (simp add: next_block_def)
    have "\<not> headroom_hit (lim_src E (lim_reads w)) (cur_src E (cur_reads s)) (headroom_bytes c)"
      using nh that(1) st(2) by (simp add: burst_check_def)
    moreover have "alloc_ok E (allocs s) (next_block c s)" using g that(1) st(1) nb by simp
    ultimately obtain s' where s': "?body s = Continue s'" "allocs s' = Suc (allocs s)"
      "cur_reads s' = cur_reads s + 2" "blocks s' = blocks s @ [next_block c s]"
      "allocated s' = allocated s + next_block c s"
      "\<exists>u. trace s' = trace s @ u \<and> granted u = [next_block c s] \<and> no_failure u"
      using mem_burst_body_granted[OF _ hw sz b0 nn lt] by blast
    have "stage (Suc j) s'" using s'(2,3,5) st nb by (simp add: stage_def algebra_simps)
    with lt s' nb show ?thesis by auto
  qed
  have final: "allocated s < ?want \<and>
      (\<exists>s'. ?body s = Break HeadroomStopped s' \<and> blocks s' = blocks s \<and>
         allocated s' = allocated s \<and>
         (\<exists>u. trace s' = trace s @ u @ [?ev] \<and> granted u = [] \<and> no_failure u))"
    if "stage k s" for s
  proof -
    from that have st: "cur_reads s = cur_reads w + 2 * k" "allocated s = int k * ?b"
      by (simp_all add: stage_def)
    have lt: "allocated s < ?want" using kb st(2) by simp
    have "headroom_hit (lim_src E (lim_reads w)) (cur_src E (cur_reads s)) (headroom_bytes c)"
      using hit st(1) by (simp add: burst_check_def)
    from mem_burst_body_stopped[OF this] lt st(1) show ?thesis by auto
  qed
  have "stage 0 ?e" by (simp add: stage_def mem_burst_entry_def)
  from while_ends[of k stage "?want" ?body ?b HeadroomStopped ?ev, OF step final this _ fuel]
  obtain s' t where run: "while_allocating fuel ?want ?body ?e = Some (HeadroomStopped, s')"
    and s': "blocks s' = blocks ?e @ replicate k ?b" "allocated s' = allocated ?e + int k * ?b"
      "trace s' = trace ?e @ t @ [?ev]" "granted t = replicate k ?b" "no_failure t"
    by auto
  have r1: "mem_burst_run fuel E c w = Some (HeadroomStopped, s')"
    unfolding mem_burst_run_entered[OF h] run by simp
  have "blocks s' = replicate k ?b" using s'(1) by (simp add: mem_burst_entry_def)
  moreover have "allocated s' = int k * ?b" using s'(2) by (simp add: mem_burst_entry_def)
  moreover have "new_events w s' =
        ReadLimits # Log (MemBurstTarget ?want ?b (headroom_bytes c) (lim_src E (lim_reads w))) #
        t @ [?ev]"
    using s'(3) by (simp add: new_events_def mem_burst_entry_def)
  ultimately show ?thesis using r1 s'(4,5) by blast
qed

lemma allocate_slow_headroom:
  assumes h: "header_ok c" and b0: "0 \<le> block_bytes c"
    and sz: "min (block_bytes c) (want_bytes c) < 2 ^ 63"
    and kb: "int k * block_bytes c < want_bytes c" and fuel: "k < fuel"
    and g: "\<forall>j<k. alloc_ok E (allocs w + j) (block_bytes c)"
    and nh: "\<forall>j<k. \<not> slow_check E c w j" and hit: "slow_check E c w k"
    and p: "0 < k \<longrightarrow> py_sleep p = None"
  shows "\<exists>st t. allocate_slow_run fuel E c p w = Some (HeadroomStopped, st) \<and>
      blocks st = replicate k (block_bytes c) \<and> allocated st = int k * block_bytes c \<and>
      new_events w st =
        Log (MemSlowTarget (want_bytes c) (block_bytes c) p (headroom_bytes c)) #
        t @ [Log (MemHeadroomStop (cur_src E (cur_reads w + 2 * k)) (lim_src E (lim_reads w + k))),
             Log (MemDone (int k * block_bytes c) k)] \<and>
      granted t = replicate k (block_bytes c) \<and> no_failure t"
proof -
  let ?b = "block_bytes c" and ?want = "want_bytes c"
  let ?ev = "Log (MemHeadroomStop (cur_src E (cur_reads w + 2 * k)) (lim_src E (lim_reads w + k)))"
  let ?body = "allocate_slow_body E c p" and ?e = "allocate_slow_entry c p w"
  define stage where "stage j s \<longleftrightarrow>
    allocs s = allocs w + j \<and> cur_reads s = cur_reads w + 2 * j \<and> lim_reads s = lim_reads w + j \<and>
    allocated s = int j * ?b" for j and s :: mstate
  from h have hw: "human ?want = None" by (simp add: header_ok_def)
  have step: "allocated s < ?want \<and>
      (\<exists>s'. ?body s = Continue s' \<and> stage (Suc j) s' \<and> blocks s' = blocks s @ [?b] \<and>
         allocated s' = allocated s + ?b \<and>
         (\<exists>u. trace s' = trace s @ u \<and> granted u = [?b] \<and> no_failure u))"
    if "j < k" "stage j s" for j s
  proof -
    from that(2) have st: "allocs s = allocs w + j" "cur_reads s = cur_reads w + 2 * j"
      "lim_reads s = lim_reads w + j" "allocated s = int j * ?b" by (simp_all add: stage_def)
    note fb = full_blocks[OF b0 kb that(1)]
    have lt: "allocated s < ?want" and nn: "0 \<le> allocated s" using fb st(4) by simp_all
    have nb: "next_block c s = ?b" using fb(2) st(4) by (simp add: next_block_def)
    from that(1) p have ps: "py_sleep p = None" by simp
    have "\<not> headroom_hit (lim_src E (lim_reads s)) (cur_src E (cur_reads s)) (headroom_bytes c)"
      using nh that(1) st(2,3) by (simp add: slow_check_def)
    moreover have "alloc_ok E (allocs s) (next_block c s)" using g that(1) st(1) nb by simp
    ultimately obtain s' where s': "?body s = Continue s'" "allocs s' = Suc (allocs s)"
      "cur_reads s' = cur_reads s + 2" "lim_reads s' = Suc (lim_reads s)"
      "blocks s' = blocks s @ [next_block c s]"
      "allocated s' = allocated s + next_block c s"
      "\<exists>u. trace s' = trace s @ u \<and> granted u = [next_block c s] \<and> no_failure u"
      using allocate_slow_body_granted[OF _ hw sz b0 nn lt _ ps] by blast
    have "stage (Suc j) s'" using s'(2,3,4,6) st nb by (simp add: stage_def algebra_simps)
    with lt s' nb show ?thesis by auto
  qed
  have final: "allocated s < ?want \<and>
      (\<exists>s'. ?body s = Break HeadroomStopped s' \<and> blocks s' = blocks s \<and>
         allocated s' = allocated s \<and>
         (\<exists>u. trace s' = trace s @ u @ [?ev] \<and> granted u = [] \<and> no_failure u))"
    if "stage k s" for s
  proof -
    from that have st: "cur_reads s = cur_reads w + 2 * k" "lim_reads s = lim_reads w + k"
      "allocated s = int k * ?b" by (simp_all add: stage_def)
    have lt: "allocated s < ?want" using kb st(3) by simp
    have "headroom_hit (lim_src E (lim_reads s)) (cur_src E (cur_reads s)) (headroom_bytes c)"
      using hit st(1,2) by (simp add: slow_check_def)
    from allocate_slow_body_stopped[OF this] lt st(1,2) show ?thesis by auto
  qed
  have "stage 0 ?e" by (simp add: stage_def allocate_slow_entry_def)
  from while_ends[of k stage "?want" ?body ?b HeadroomStopped ?ev, OF step final this _ fuel]
  obtain s' t where run: "while_allocating fuel ?want ?body ?e = Some (HeadroomStopped, s')"
    and s': "blocks s' = blocks ?e @ replicate k ?b" "allocated s' = allocated ?e + int k * ?b"
      "trace s' = trace ?e @ t @ [?ev]" "granted t = replicate k ?b" "no_failure t"
    by auto
  from s'(2) have al: "allocated s' = int k * ?b" by (simp add: allocate_slow_entry_def)
  from s'(1) have bl: "blocks s' = replicate k ?b" by (simp add: allocate_slow_entry_def)
  have ha: "human (allocated s') = None"
    using al kb b0 by (intro human_between[OF hw]) simp_all
  let ?st = "emit (Log (MemDone (allocated s') (length (blocks s')))) s'"
  have r1: "allocate_slow_run fuel E c p w = Some (HeadroomStopped, ?st)"
    unfolding allocate_slow_run_entered[OF h] run using ha by (simp add: log_line_def)
  have "blocks ?st = replicate k ?b" using bl by (simp add: emit_def)
  moreover have "allocated ?st = int k * ?b" using al by (simp add: emit_def)
  moreover have "new_events w ?st =
        Log (MemSlowTarget ?want ?b p (headroom_bytes c)) #
        t @ [?ev, Log (MemDone (int k * ?b) k)]"
    using s'(3) al bl by (simp add: new_events_def emit_def allocate_slow_entry_def)
  ultimately show ?thesis using r1 s'(4,5) by blast
qed

text \<open>
  The test as the claim words it.  A reading of the usage is an unsigned counter, hence
  not negative, so clamping the threshold at 0 changes nothing.
\<close>

lemma cur_src_nonneg: "cur_src E k = Some cu \<Longrightarrow> 0 \<le> cu"
  by (auto simp: cur_src_def)

lemma headroom_hit_iff:
  "headroom_hit (lim_src E i) (cur_src E k) h \<longleftrightarrow>
   (\<exists>l cu. lim_src E i = Some l \<and> cur_src E k = Some cu \<and> l - h \<le> cu)"
proof (cases "lim_src E i")
  case None
  then show ?thesis by (simp add: headroom_hit_def)
next
  case (Some l)
  show ?thesis
  proof (cases "cur_src E k")
    case None
    with Some show ?thesis by (simp add: headroom_hit_def)
  next
    case (Some cu)
    from cur_src_nonneg[OF this] have "max 0 (l - h) \<le> cu \<longleftrightarrow> l - h \<le> cu" by simp
    with Some \<open>lim_src E i = Some l\<close> show ?thesis by (simp add: headroom_hit_def)
  qed
qed

lemma headroom_general:
  assumes a: "header_ok c \<and> 0 \<le> block_bytes c \<and> min (block_bytes c) (want_bytes c) < 2 ^ 63 \<and>
      int k * block_bytes c < want_bytes c \<and> k < fuel \<and>
      (\<forall>j<k. alloc_ok E (allocs w + j) (block_bytes c))"
  shows "((\<forall>j<k. \<not> burst_check E c w j) \<and> burst_check E c w k \<longrightarrow>
      mem_burst fuel E c w = Some (Inr (replicate k (block_bytes c))) \<and>
      (\<exists>st t. mem_burst_run fuel E c w = Some (HeadroomStopped, st) \<and>
         blocks st = replicate k (block_bytes c) \<and> allocated st = int k * block_bytes c \<and>
         new_events w st =
           ReadLimits #
           Log (MemBurstTarget (want_bytes c) (block_bytes c) (headroom_bytes c)
                  (lim_src E (lim_reads w))) #
           t @ [Log (MemHeadroomStop (cur_src E (cur_reads w + 2 * k)) (lim_src E (lim_reads w)))] \<and>
         granted t = replicate k (block_bytes c) \<and> no_failure t)) \<and>
    ((\<forall>j<k. \<not> slow_check E c w j) \<and> slow_check E c w k \<and> (0 < k \<longrightarrow> py_sleep p = None) \<longrightarrow>
      allocate_slow fuel E c p w = Some (Inr (replicate k (block_bytes c))) \<and>
      (\<exists>st t. allocate_slow_run fuel E c p w = Some (HeadroomStopped, st) \<and>
         blocks st = replicate k (block_bytes c) \<and> allocated st = int k * block_bytes c \<and>
         new_events w st =
           Log (MemSlowTarget (want_bytes c) (block_bytes c) p (headroom_bytes c)) #
           t @ [Log (MemHeadroomStop (cur_src E (cur_reads w + 2 * k)) (lim_src E (lim_reads w + k))),
                Log (MemDone (int k * block_bytes c) k)] \<and>
         granted t = replicate k (block_bytes c) \<and> no_failure t))"
proof (rule conjI[OF impI impI])
  from a have h: "header_ok c" "0 \<le> block_bytes c" "min (block_bytes c) (want_bytes c) < 2 ^ 63"
    "int k * block_bytes c < want_bytes c" "k < fuel"
    "\<forall>j<k. alloc_ok E (allocs w + j) (block_bytes c)" by blast+
  {
    assume "(\<forall>j<k. \<not> burst_check E c w j) \<and> burst_check E c w k"
    then have c: "\<forall>j<k. \<not> burst_check E c w j" "burst_check E c w k" by blast+
    note m = mem_burst_headroom[OF h c]
    from m obtain st where "mem_burst_run fuel E c w = Some (HeadroomStopped, st)"
      "blocks st = replicate k (block_bytes c)" by blast
    then have "mem_burst fuel E c w = Some (Inr (replicate k (block_bytes c)))"
      by (simp add: mem_burst_def returned_def)
    with m show "mem_burst fuel E c w = Some (Inr (replicate k (block_bytes c))) \<and>
      (\<exists>st t. mem_burst_run fuel E c w = Some (HeadroomStopped, st) \<and>
         blocks st = replicate k (block_bytes c) \<and> allocated st = int k * block_bytes c \<and>
         new_events w st =
           ReadLimits #
           Log (MemBurstTarget (want_bytes c) (block_bytes c) (headroom_bytes c)
                  (lim_src E (lim_reads w))) #
           t @ [Log (MemHeadroomStop (cur_src E (cur_reads w + 2 * k)) (lim_src E (lim_reads w)))] \<and>
         granted t = replicate k (block_bytes c) \<and> no_failure t)" by (rule_tac conjI)
  }
  {
    assume "(\<forall>j<k. \<not> slow_check E c w j) \<and> slow_check E c w k \<and> (0 < k \<longrightarrow> py_sleep p = None)"
    then have c: "\<forall>j<k. \<not> slow_check E c w j" "slow_check E c w k" "0 < k \<longrightarrow> py_sleep p = None"
      by blast+
    note m = allocate_slow_headroom[OF h c]
    from m obtain st where "allocate_slow_run fuel E c p w = Some (HeadroomStopped, st)"
      "blocks st = replicate k (block_bytes c)" by blast
    then have "allocate_slow fuel E c p w = Some (Inr (replicate k (block_bytes c)))"
      by (simp add: allocate_slow_def returned_def)
    with m show "allocate_slow fuel E c p w = Some (Inr (replicate k (block_bytes c))) \<and>
      (\<exists>st t. allocate_slow_run fuel E c p w = Some (HeadroomStopped, st) \<and>
         blocks st = replicate k (block_bytes c) \<and> allocated st = int k * block_bytes c \<and>
         new_events w st =
           Log (MemSlowTarget (want_bytes c) (block_bytes c) p (headroom_bytes c)) #
           t @ [Log (MemHeadroomStop (cur_src E (cur_reads w + 2 * k)) (lim_src E (lim_reads w + k))),
                Log (MemDone (int k * block_bytes c) k)] \<and>
         granted t = replicate k (block_bytes c) \<and> no_failure t)" by (rule_tac conjI)
  }
qed

text \<open>The scenario of the claim, from the general statement with \<open>k = 2\<close>.\<close>

lemma headroom_scenario:
  assumes a: "block_bytes c = 83886080 \<and> headroom_bytes c = 52428800 \<and>
      167772160 < want_bytes c \<and> human (want_bytes c) = None \<and>
      (\<forall>j. lim_src E j = Some 209715200) \<and>
      \<not> headroom_hit (Some 209715200) (cur_src E (cur_reads w)) 52428800 \<and>
      \<not> headroom_hit (Some 209715200) (cur_src E (cur_reads w + 2)) 52428800 \<and>
      cur_src E (cur_reads w + 4) = Some 167772160 \<and>
      alloc_ok E (allocs w) 83886080 \<and> alloc_ok E (allocs w + 1) 83886080 \<and>
      3 \<le> fuel \<and> py_sleep p = None"
  shows "mem_burst fuel E c w = Some (Inr [83886080, 83886080]) \<and>
      allocate_slow fuel E c p w = Some (Inr [83886080, 83886080]) \<and>
      (\<exists>st t. mem_burst_run fuel E c w = Some (HeadroomStopped, st) \<and>
         allocated st = 167772160 \<and>
         new_events w st =
           ReadLimits # Log (MemBurstTarget (want_bytes c) 83886080 52428800 (Some 209715200)) #
           t @ [Log (MemHeadroomStop (Some 167772160) (Some 209715200))] \<and>
         granted t = [83886080, 83886080] \<and> no_failure t) \<and>
      (\<exists>st t. allocate_slow_run fuel E c p w = Some (HeadroomStopped, st) \<and>
         allocated st = 167772160 \<and>
         new_events w st =
           Log (MemSlowTarget (want_bytes c) 83886080 p 52428800) #
           t @ [Log (MemHeadroomStop (Some 167772160) (Some 209715200)),
                Log (MemDone 167772160 2)] \<and>
         granted t = [83886080, 83886080] \<and> no_failure t)"
proof -
  from a have c: "block_bytes c = 83886080" "headroom_bytes c = 52428800"
    "167772160 < want_bytes c" "human (want_bytes c) = None"
    and lim: "\<And>j. lim_src E j = Some 209715200"
    and c0: "\<not> headroom_hit (Some 209715200) (cur_src E (cur_reads w)) 52428800"
    and c2: "\<not> headroom_hit (Some 209715200) (cur_src E (cur_reads w + 2)) 52428800"
    and c4: "cur_src E (cur_reads w + 4) = Some 167772160"
    and ok: "alloc_ok E (allocs w) 83886080" "alloc_ok E (allocs w + 1) 83886080"
    and fuel: "3 \<le> fuel" and p: "py_sleep p = None"
    by blast+
  have two: "j < 2 \<longleftrightarrow> j = 0 \<or> j = Suc 0" for j :: nat by auto
  have h: "header_ok c" using c by (simp add: header_ok_def human_small)
  have g: "\<forall>j<2. alloc_ok E (allocs w + j) (block_bytes c)" using ok c(1) by (auto simp: two)
  have "headroom_hit (Some 209715200) (Some 167772160) 52428800" by (simp add: headroom_hit_def)
  then have hit: "burst_check E c w 2" "slow_check E c w 2"
    using lim c4 c(2) by (simp_all add: burst_check_def slow_check_def)
  have nh: "\<forall>j<2. \<not> burst_check E c w j" "\<forall>j<2. \<not> slow_check E c w j"
    using lim c0 c2 c(2) by (auto simp: two burst_check_def slow_check_def)
  have pre: "header_ok c \<and> 0 \<le> block_bytes c \<and> min (block_bytes c) (want_bytes c) < 2 ^ 63 \<and>
      int 2 * block_bytes c < want_bytes c \<and> 2 < fuel \<and>
      (\<forall>j<2. alloc_ok E (allocs w + j) (block_bytes c))"
    using h g c fuel by simp
  have r: "replicate 2 (83886080::int) = [83886080, 83886080]" "int 2 * 83886080 = 167772160"
    "cur_reads w + 2 * 2 = cur_reads w + 4"
    by (simp_all add: numeral_2_eq_2)
  note gen = headroom_general[OF pre, of p, unfolded c(1,2) lim r c4]
  from gen[THEN conjunct1] nh(1) hit(1)
  have m: "mem_burst fuel E c w = Some (Inr [83886080, 83886080])"
    "\<exists>st t. mem_burst_run fuel E c w = Some (HeadroomStopped, st) \<and>
         allocated st = 167772160 \<and>
         new_events w st =
           ReadLimits # Log (MemBurstTarget (want_bytes c) 83886080 52428800 (Some 209715200)) #
           t @ [Log (MemHeadroomStop (Some 167772160) (Some 209715200))] \<and>
         granted t = [83886080, 83886080] \<and> no_failure t"
    by blast+
  from gen[THEN conjunct2] nh(2) hit(2) p
  have s: "allocate_slow fuel E c p w = Some (Inr [83886080, 83886080])"
    "\<exists>st t. allocate_slow_run fuel E c p w = Some (HeadroomStopped, st) \<and>
         allocated st = 167772160 \<and>
         new_events w st =
           Log (MemSlowTarget (want_bytes c) 83886080 p 52428800) #
           t @ [Log (MemHeadroomStop (Some 167772160) (Some 209715200)),
                Log (MemDone 167772160 2)] \<and>
         granted t = [83886080, 83886080] \<and> no_failure t"
    by blast+
  from m s show ?thesis by blast
qed

text \<open>
  C2.  In general: take a run of \<^verbatim>\<open>mem_burst\<close> or \<^verbatim>\<open>allocate_slow\<close> whose header line
  was formatted, in which the first \<open>k\<close> iterations pass the headroom test and are granted
  their block (full blocks, the target not being reached), and in which the test of
  iteration \<open>k\<close> finds the limit and the current usage both known with
  \<open>current \<ge> limit - headroomBytes\<close>.  Then the engine stops there: it returns the \<open>k\<close>
  blocks, and after the \<open>k\<close> granted requests no further request is made, the next event
  being the headroom-stop record with the two readings.  The test of the code,
  \<open>current \<ge> max 0 (limit - headroomBytes)\<close>, is the test of the claim, a reading of the
  usage being an unsigned counter.  The scenario of the claim is the case \<open>k = 2\<close>: with a
  limit of 200 MiB, a headroom of 50 MiB and blocks of 80 MiB, when the first two tests
  pass, both requests are granted and the usage sampled for the third test is 160 MiB,
  exactly two blocks of 80 MiB are returned, 160 MiB in total, and the record with
  160 MiB and 200 MiB is logged.
\<close>

theorem headroom_stop:
  "(header_ok c \<and> 0 \<le> block_bytes c \<and> min (block_bytes c) (want_bytes c) < 2 ^ 63 \<and>
      int k * block_bytes c < want_bytes c \<and> k < fuel \<and>
      (\<forall>j<k. alloc_ok E (allocs w + j) (block_bytes c)) \<longrightarrow>
    ((\<forall>j<k. \<not> burst_check E c w j) \<and> burst_check E c w k \<longrightarrow>
      mem_burst fuel E c w = Some (Inr (replicate k (block_bytes c))) \<and>
      (\<exists>st t. mem_burst_run fuel E c w = Some (HeadroomStopped, st) \<and>
         blocks st = replicate k (block_bytes c) \<and> allocated st = int k * block_bytes c \<and>
         new_events w st =
           ReadLimits #
           Log (MemBurstTarget (want_bytes c) (block_bytes c) (headroom_bytes c)
                  (lim_src E (lim_reads w))) #
           t @ [Log (MemHeadroomStop (cur_src E (cur_reads w + 2 * k)) (lim_src E (lim_reads w)))] \<and>
         granted t = replicate k (block_bytes c) \<and> no_failure t)) \<and>
    ((\<forall>j<k. \<not> slow_check E c w j) \<and> slow_check E c w k \<and> (0 < k \<longrightarrow> py_sleep p = None) \<longrightarrow>
      allocate_slow fuel E c p w = Some (Inr (replicate k (block_bytes c))) \<and>
      (\<exists>st t. allocate_slow_run fuel E c p w = Some (HeadroomStopped, st) \<and>
         blocks st = replicate k (block_bytes c) \<and> allocated st = int k * block_bytes c \<and>
         new_events w st =
           Log (MemSlowTarget (want_bytes c) (block_bytes c) p (headroom_bytes c)) #
           t @ [Log (MemHeadroomStop (cur_src E (cur_reads w + 2 * k)) (lim_src E (lim_reads w + k))),
                Log (MemDone (int k * block_bytes c) k)] \<and>
         granted t = replicate k (block_bytes c) \<and> no_failure t))) \<and>
   (burst_check E c w k \<longleftrightarrow>
      (\<exists>l cu. lim_src E (lim_reads w) = Some l \<and> cur_src E (cur_reads w + 2 * k) = Some cu \<and>
         l - headroom_bytes c \<le> cu)) \<and>
   (slow_check E c w k \<longleftrightarrow>
      (\<exists>l cu. lim_src E (lim_reads w + k) = Some l \<and> cur_src E (cur_reads w + 2 * k) = Some cu \<and>
         l - headroom_bytes c \<le> cu)) \<and>
   (block_bytes c = 83886080 \<and> headroom_bytes c = 52428800 \<and>
      167772160 < want_bytes c \<and> human (want_bytes c) = None \<and>
      (\<forall>j. lim_src E j = Some 209715200) \<and>
      \<not> headroom_hit (Some 209715200) (cur_src E (cur_reads w)) 52428800 \<and>
      \<not> headroom_hit (Some 209715200) (cur_src E (cur_reads w + 2)) 52428800 \<and>
      cur_src E (cur_reads w + 4) = Some 167772160 \<and>
      alloc_ok E (allocs w) 83886080 \<and> alloc_ok E (allocs w + 1) 83886080 \<and>
      3 \<le> fuel \<and> py_sleep p = None \<longrightarrow>
      mem_burst fuel E c w = Some (Inr [83886080, 83886080]) \<and>
      allocate_slow fuel E c p w = Some (Inr [83886080, 83886080]) \<and>
      (\<exists>st t. mem_burst_run fuel E c w = Some (HeadroomStopped, st) \<and>
         allocated st = 167772160 \<and>
         new_events w st =
           ReadLimits # Log (MemBurstTarget (want_bytes c) 83886080 52428800 (Some 209715200)) #
           t @ [Log (MemHeadroomStop (Some 167772160) (Some 209715200))] \<and>
         granted t = [83886080, 83886080] \<and> no_failure t) \<and>
      (\<exists>st t. allocate_slow_run fuel E c p w = Some (HeadroomStopped, st) \<and>
         allocated st = 167772160 \<and>
         new_events w st =
           Log (MemSlowTarget (want_bytes c) 83886080 p 52428800) #
           t @ [Log (MemHeadroomStop (Some 167772160) (Some 209715200)),
                Log (MemDone 167772160 2)] \<and>
         granted t = [83886080, 83886080] \<and> no_failure t))"
proof (rule conjI[OF impI conjI[OF _ conjI[OF _ impI]]])
  assume "header_ok c \<and> 0 \<le> block_bytes c \<and> min (block_bytes c) (want_bytes c) < 2 ^ 63 \<and>
      int k * block_bytes c < want_bytes c \<and> k < fuel \<and>
      (\<forall>j<k. alloc_ok E (allocs w + j) (block_bytes c))"
  then show "((\<forall>j<k. \<not> burst_check E c w j) \<and> burst_check E c w k \<longrightarrow>
      mem_burst fuel E c w = Some (Inr (replicate k (block_bytes c))) \<and>
      (\<exists>st t. mem_burst_run fuel E c w = Some (HeadroomStopped, st) \<and>
         blocks st = replicate k (block_bytes c) \<and> allocated st = int k * block_bytes c \<and>
         new_events w st =
           ReadLimits #
           Log (MemBurstTarget (want_bytes c) (block_bytes c) (headroom_bytes c)
                  (lim_src E (lim_reads w))) #
           t @ [Log (MemHeadroomStop (cur_src E (cur_reads w + 2 * k)) (lim_src E (lim_reads w)))] \<and>
         granted t = replicate k (block_bytes c) \<and> no_failure t)) \<and>
    ((\<forall>j<k. \<not> slow_check E c w j) \<and> slow_check E c w k \<and> (0 < k \<longrightarrow> py_sleep p = None) \<longrightarrow>
      allocate_slow fuel E c p w = Some (Inr (replicate k (block_bytes c))) \<and>
      (\<exists>st t. allocate_slow_run fuel E c p w = Some (HeadroomStopped, st) \<and>
         blocks st = replicate k (block_bytes c) \<and> allocated st = int k * block_bytes c \<and>
         new_events w st =
           Log (MemSlowTarget (want_bytes c) (block_bytes c) p (headroom_bytes c)) #
           t @ [Log (MemHeadroomStop (cur_src E (cur_reads w + 2 * k)) (lim_src E (lim_reads w + k))),
                Log (MemDone (int k * block_bytes c) k)] \<and>
         granted t = replicate k (block_bytes c) \<and> no_failure t))"
    by (rule headroom_general)
next
  show "burst_check E c w k \<longleftrightarrow>
      (\<exists>l cu. lim_src E (lim_reads w) = Some l \<and> cur_src E (cur_reads w + 2 * k) = Some cu \<and>
         l - headroom_bytes c \<le> cu)"
    unfolding burst_check_def by (rule headroom_hit_iff)
next
  show "slow_check E c w k \<longleftrightarrow>
      (\<exists>l cu. lim_src E (lim_reads w + k) = Some l \<and> cur_src E (cur_reads w + 2 * k) = Some cu \<and>
         l - headroom_bytes c \<le> cu)"
    unfolding slow_check_def by (rule headroom_hit_iff)
next
  assume "block_bytes c = 83886080 \<and> headroom_bytes c = 52428800 \<and>
      167772160 < want_bytes c \<and> human (want_bytes c) = None \<and>
      (\<forall>j. lim_src E j = Some 209715200) \<and>
      \<not> headroom_hit (Some 209715200) (cur_src E (cur_reads w)) 52428800 \<and>
      \<not> headroom_hit (Some 209715200) (cur_src E (cur_reads w + 2)) 52428800 \<and>
      cur_src E (cur_reads w + 4) = Some 167772160 \<and>
      alloc_ok E (allocs w) 83886080 \<and> alloc_ok E (allocs w + 1) 83886080 \<and>
      3 \<le> fuel \<and> py_sleep p = None"
  then show "mem_burst fuel E c w = Some (Inr [83886080, 83886080]) \<and>
      allocate_slow fuel E c p w = Some (Inr [83886080, 83886080]) \<and>
      (\<exists>st t. mem_burst_run fuel E c w = Some (HeadroomStopped, st) \<and>
         allocated st = 167772160 \<and>
         new_events w st =
           ReadLimits # Log (MemBurstTarget (want_bytes c) 83886080 52428800 (Some 209715200)) #
           t @ [Log (MemHeadroomStop (Some 167772160) (Some 209715200))] \<and>
         granted t = [83886080, 83886080] \<and> no_failure t) \<and>
      (\<exists>st t. allocate_slow_run fuel E c p w = Some (HeadroomStopped, st) \<and>
         allocated st = 167772160 \<and>
         new_events w st =
           Log (MemSlowTarget (want_bytes c) 83886080 p 52428800) #
           t @ [Log (MemHeadroomStop (Some 167772160) (Some 209715200)),
                Log (MemDone 167772160 2)] \<and>
         granted t = [83886080, 83886080] \<and> no_failure t)"
    by (rule headroom_scenario)
qed

theorem headroom_stop_witness:
  "mem_burst 3 scenario_env \<lparr>want_bytes = 419430400, block_bytes = 83886080, headroom_bytes = 52428800\<rparr>
     fresh_world = Some (Inr [83886080, 83886080]) \<and>
   allocate_slow 3 scenario_env \<lparr>want_bytes = 419430400, block_bytes = 83886080, headroom_bytes = 52428800\<rparr>
     0 fresh_world = Some (Inr [83886080, 83886080]) \<and>
   burst_check scenario_env \<lparr>want_bytes = 419430400, block_bytes = 83886080, headroom_bytes = 52428800\<rparr>
     fresh_world 2"
proof -
  let ?c = "\<lparr>want_bytes = 419430400, block_bytes = 83886080, headroom_bytes = 52428800\<rparr>"
  have l: "lim_src scenario_env j = Some 209715200" for j
    by (simp add: lim_src_def scenario_env_def)
  have a1: "\<not> headroom_hit (Some 209715200) (cur_src scenario_env (cur_reads fresh_world)) 52428800 \<and>
      \<not> headroom_hit (Some 209715200) (cur_src scenario_env (cur_reads fresh_world + 2)) 52428800 \<and>
      cur_src scenario_env (cur_reads fresh_world + 4) = Some 167772160 \<and>
      alloc_ok scenario_env (allocs fresh_world) 83886080 \<and>
      alloc_ok scenario_env (allocs fresh_world + 1) 83886080"
    by code_simp
  have a: "block_bytes ?c = 83886080 \<and> headroom_bytes ?c = 52428800 \<and>
      167772160 < want_bytes ?c \<and> human (want_bytes ?c) = None \<and>
      (\<forall>j. lim_src scenario_env j = Some 209715200) \<and>
      \<not> headroom_hit (Some 209715200) (cur_src scenario_env (cur_reads fresh_world)) 52428800 \<and>
      \<not> headroom_hit (Some 209715200) (cur_src scenario_env (cur_reads fresh_world + 2)) 52428800 \<and>
      cur_src scenario_env (cur_reads fresh_world + 4) = Some 167772160 \<and>
      alloc_ok scenario_env (allocs fresh_world) 83886080 \<and>
      alloc_ok scenario_env (allocs fresh_world + 1) 83886080 \<and>
      3 \<le> (3::nat) \<and> py_sleep 0 = None"
    using a1 l by (simp add: human_small py_sleep_zero)
  note sc = headroom_stop[where E = scenario_env and c = ?c and w = fresh_world and fuel = 3
      and p = 0 and k = 2, THEN conjunct2, THEN conjunct2, THEN conjunct2, THEN mp, OF a]
  have "burst_check scenario_env ?c fresh_world 2"
    using headroom_stop[where E = scenario_env and c = ?c and w = fresh_world and k = 2,
        THEN conjunct2, THEN conjunct1] l a1
    by (simp add: fresh_world_def)
  with sc show ?thesis by blast
qed

section \<open>Properties of the CPU engine\<close>

lemma joins_simps [simp]:
  "joins [] = []"
  "joins (Join q t # tr) = (q, t) # joins tr"
  "joins (Start q # tr) = joins tr"
  "joins (Log l # tr) = joins tr"
  "joins (Sleep d # tr) = joins tr"
  "joins (a @ b) = joins a @ joins b"
  by (simp_all add: joins_def)

lemma started_workers_simps [simp]:
  "started_workers [] = {}"
  "started_workers (Start (CpuWorker i) # tr) = insert i (started_workers tr)"
  "started_workers (Join q t # tr) = started_workers tr"
  "started_workers (Log l # tr) = started_workers tr"
  "started_workers (Sleep d # tr) = started_workers tr"
  "started_workers (a @ b) = started_workers a \<union> started_workers b"
  by (auto simp: started_workers_def)

lemma joins_starts:
  "joins (concat (map (\<lambda>i. [Start (CpuWorker i), Log (f i)]) xs)) = []"
  by (induction xs) simp_all

lemma started_starts:
  "started_workers (concat (map (\<lambda>i. [Start (CpuWorker i), Log (f i)]) xs)) = set xs"
  by (induction xs) auto

lemma joins_of_joins:
  "joins (map (\<lambda>i. Join (CpuWorker i) t) xs) = map (\<lambda>i. (CpuWorker i, t)) xs"
  by (induction xs) simp_all

lemma started_of_joins:
  "started_workers (map (\<lambda>i. Join (CpuWorker i) t) xs) = {}"
  by (induction xs) simp_all

lemma cpu_burst_joins:
  "joins (cpu_burst avail nproc na) = map (\<lambda>i. (CpuWorker i, None)) [0..<nat nproc]"
  by (simp add: cpu_burst_def joins_starts joins_of_joins)

lemma cpu_burst_started:
  "started_workers (cpu_burst avail nproc na) = {i. i < nat nproc}"
  by (auto simp: cpu_burst_def started_starts started_of_joins)


lemma ramp_loop_Suc:
  assumes "ramp_loop (Suc fuel) clock stop_at r k started tr = Some res"
  shows "(\<not> clock k < stop_at \<and> res = (None, started, tr)) \<or>
     (clock k < stop_at \<and> \<not> int started < total_cpus r \<and>
        ramp_loop fuel clock stop_at r (Suc k) started (tr @ [Sleep (1 / 2)]) = Some res) \<or>
     (clock k < stop_at \<and> int started < total_cpus r \<and> ramp_every r < 0 \<and>
        res = (Some ValueError, Suc started, tr @ spawn r started)) \<or>
     (clock k < stop_at \<and> int started < total_cpus r \<and> \<not> ramp_every r < 0 \<and>
        ramp_loop fuel clock stop_at r (Suc k) (Suc started)
          ((tr @ spawn r started) @ [Sleep (ramp_every r)]) = Some res)"
  using assms by (simp add: Let_def spawn_def split: if_splits)

lemma spawn_facts [simp]:
  "started_workers (spawn r n) = {n}" "joins (spawn r n) = []"
  by (simp_all add: spawn_def)

lemma below_Suc: "insert n {i. i < n} = {i. i < Suc n}"
  by auto

lemma ramp_loop_started:
  assumes "ramp_loop fuel clock stop_at r k started tr = Some (e, started', tr')"
    and "started_workers tr = {i. i < started}" "joins tr = []"
  shows "started_workers tr' = {i. i < started'} \<and> joins tr' = []"
  using assms
proof (induction fuel arbitrary: k started tr)
  case 0
  then have "started' = started" "tr' = tr" by (simp_all split: if_splits)
  with 0 show ?case by simp
next
  case (Suc fuel)
  have s: "started_workers (tr @ spawn r started) = {i. i < Suc started}"
    "joins (tr @ spawn r started) = []"
    using Suc.prems(2,3) by (simp_all add: below_Suc)
  from ramp_loop_Suc[OF Suc.prems(1)] consider
    (stop) "(e, started', tr') = (None, started, tr)"
    | (idle) "ramp_loop fuel clock stop_at r (Suc k) started (tr @ [Sleep (1 / 2)]) = Some (e, started', tr')"
    | (raise) "(e, started', tr') = (Some ValueError, Suc started, tr @ spawn r started)"
    | (go) "ramp_loop fuel clock stop_at r (Suc k) (Suc started)
          ((tr @ spawn r started) @ [Sleep (ramp_every r)]) = Some (e, started', tr')"
    by blast
  then show ?case
  proof cases
    case stop
    with Suc.prems(2,3) show ?thesis by simp
  next
    case idle
    then show ?thesis
    proof (rule Suc.IH)
      show "started_workers (tr @ [Sleep (1 / 2)]) = {i. i < started}" using Suc.prems(2) by simp
      show "joins (tr @ [Sleep (1 / 2)]) = []" using Suc.prems(3) by simp
    qed
  next
    case raise
    with s show ?thesis by simp
  next
    case go
    then show ?thesis
    proof (rule Suc.IH)
      show "started_workers ((tr @ spawn r started) @ [Sleep (ramp_every r)]) = {i. i < Suc started}"
        using s(1) by simp
      show "joins ((tr @ spawn r started) @ [Sleep (ramp_every r)]) = []" using s(2) by simp
    qed
  qed
qed

lemma run_cpu_ramp_joins:
  assumes "run_cpu_ramp fuel clock r duration = Some (tr, None)"
  shows "\<exists>n. joins tr = map (\<lambda>i. (CpuWorker i, Some 1)) [0..<n] \<and> started_workers tr = {i. i < n}"
proof -
  let ?stop = "clock 0 + of_int (max 1 duration)"
  from assms obtain n tr0 where
    loop: "ramp_loop fuel clock ?stop r 1 0 [] = Some (None, n, tr0)"
    and tr: "tr = tr0 @ map (\<lambda>i. Join (CpuWorker i) (Some 1)) [0..<n]"
    by (auto simp: run_cpu_ramp_def Let_def split: option.splits prod.splits)
  from ramp_loop_started[OF loop] have "started_workers tr0 = {i. i < n}" "joins tr0 = []"
    by simp_all
  with tr show ?thesis by (auto simp: joins_of_joins started_of_joins)
qed

text \<open>The ramp returns once the clock has reached the deadline.\<close>

lemma ramp_loop_returns:
  "stop_at \<le> clock (k + n) \<Longrightarrow> ramp_loop n clock stop_at r k started tr \<noteq> None"
proof (induction n arbitrary: k started tr)
  case 0
  then show ?case by simp
next
  case (Suc n)
  then have "stop_at \<le> clock (Suc k + n)" by simp
  from Suc.IH[OF this] show ?case by (simp add: Let_def)
qed

lemma run_cpu_ramp_returns:
  "clock 0 + of_int (max 1 duration) \<le> clock (Suc n) \<Longrightarrow> run_cpu_ramp n clock r duration \<noteq> None"
  using ramp_loop_returns[of "clock 0 + of_int (max 1 duration)" clock 1 n r 0 "[]"]
  by (auto simp: run_cpu_ramp_def Let_def split: option.splits)

text \<open>
  C7, as the code has it.  When \<^verbatim>\<open>run_cpu_ramp\<close> returns, the parent has joined exactly
  the workers it started, each with a timeout of one second.  \<^verbatim>\<open>cpu_burst\<close> starts
  \<open>nproc\<close> workers and joins exactly these, each by \<^verbatim>\<open>join()\<close> without a timeout: that
  wait lasts until the worker ends.
\<close>

theorem worker_joins:
  "(run_cpu_ramp fuel clock r duration = Some (tr, None) \<longrightarrow>
      (\<forall>j \<in> set (joins tr). snd j = Some 1) \<and>
      fst ` set (joins tr) = CpuWorker ` started_workers tr) \<and>
   (\<forall>j \<in> set (joins (cpu_burst avail nproc na)). snd j = None) \<and>
   fst ` set (joins (cpu_burst avail nproc na)) = CpuWorker ` started_workers (cpu_burst avail nproc na) \<and>
   started_workers (cpu_burst avail nproc na) = {i. i < nat nproc}"
proof (intro conjI impI)
  assume "run_cpu_ramp fuel clock r duration = Some (tr, None)"
  from run_cpu_ramp_joins[OF this] obtain n where
    n: "joins tr = map (\<lambda>i. (CpuWorker i, Some 1)) [0..<n]" "started_workers tr = {i. i < n}"
    by blast
  show "\<forall>j \<in> set (joins tr). snd j = Some 1" unfolding n(1) by auto
  show "fst ` set (joins tr) = CpuWorker ` started_workers tr" unfolding n by force
next
  show "\<forall>j \<in> set (joins (cpu_burst avail nproc na)). snd j = None"
    unfolding cpu_burst_joins by auto
  show "fst ` set (joins (cpu_burst avail nproc na)) = CpuWorker ` started_workers (cpu_burst avail nproc na)"
    unfolding cpu_burst_joins cpu_burst_started by force
  show "started_workers (cpu_burst avail nproc na) = {i. i < nat nproc}"
    by (rule cpu_burst_started)
qed

lemma ramp_example:
  "run_cpu_ramp 9 ticking \<lparr>total_cpus = 2, ramp_every = 1, no_affinity = False, available = Some [0, 1]\<rparr> 5
   = Some ([Start (CpuWorker 0), Log (CpuStarted 1 2 (Some 0)), Sleep 1,
            Start (CpuWorker 1), Log (CpuStarted 2 2 (Some 1)), Sleep 1,
            Sleep (1 / 2), Sleep (1 / 2),
            Join (CpuWorker 0) (Some 1), Join (CpuWorker 1) (Some 1)], None)"
  by (simp add: run_cpu_ramp_def ticking_def pin_for_def eval_nat_numeral upt_rec)

theorem worker_joins_witness:
  "run_cpu_ramp 9 ticking \<lparr>total_cpus = 2, ramp_every = 1, no_affinity = False, available = Some [0, 1]\<rparr> 5
   = Some ([Start (CpuWorker 0), Log (CpuStarted 1 2 (Some 0)), Sleep 1,
            Start (CpuWorker 1), Log (CpuStarted 2 2 (Some 1)), Sleep 1,
            Sleep (1 / 2), Sleep (1 / 2),
            Join (CpuWorker 0) (Some 1), Join (CpuWorker 1) (Some 1)], None) \<and>
   fst ` set (joins [Start (CpuWorker 0), Log (CpuStarted 1 2 (Some 0)), Sleep 1,
            Start (CpuWorker 1), Log (CpuStarted 2 2 (Some 1)), Sleep 1,
            Sleep (1 / 2), Sleep (1 / 2),
            Join (CpuWorker 0) (Some 1), Join (CpuWorker 1) (Some 1)])
     = CpuWorker ` started_workers [Start (CpuWorker 0), Log (CpuStarted 1 2 (Some 0)), Sleep 1,
            Start (CpuWorker 1), Log (CpuStarted 2 2 (Some 1)), Sleep 1,
            Sleep (1 / 2), Sleep (1 / 2),
            Join (CpuWorker 0) (Some 1), Join (CpuWorker 1) (Some 1)]"
  by (intro conjI ramp_example worker_joins[THEN conjunct1, THEN mp, OF ramp_example, THEN conjunct2])

text \<open>
  C7 as worded fails for \<^verbatim>\<open>cpu_burst\<close>: the joins on its workers carry no timeout.
\<close>

theorem burst_join_has_no_timeout:
  "cpu_burst None 2 False =
     [Start (CpuWorker 0), Log (CpuStarted 1 2 None), Start (CpuWorker 1), Log (CpuStarted 2 2 None),
      Join (CpuWorker 0) None, Join (CpuWorker 1) None]"
  by (simp add: cpu_burst_def pin_for_def eval_nat_numeral upt_rec)

section \<open>Properties of \<^verbatim>\<open>parse_size\<close>\<close>

subsection \<open>Stripping, lowering and the scan of the unit suffixes\<close>

lemma sorted_units_eq:
  "sorted_units = [(''ki'', 1024), (''mi'', 1024 ^ 2), (''gi'', 1024 ^ 3), (''ti'', 1024 ^ 4),
                   (''k'', 1024), (''m'', 1024 ^ 2), (''g'', 1024 ^ 3), (''t'', 1024 ^ 4)]"
  by (simp add: sorted_units_def units_def)

lemma plain_not_space: "plain_char c \<Longrightarrow> \<not> is_space c"
  by (auto simp: plain_char_def is_digit_def is_space_def Let_def)

lemma plain_not_sign: "plain_char c \<Longrightarrow> c \<noteq> CHR ''-'' \<and> c \<noteq> CHR ''+'' \<and> c \<noteq> CHR ''e'' \<and> c \<noteq> CHR ''E''"
  by (auto simp: plain_char_def is_digit_def)

lemma plain_lower: "plain_char c \<Longrightarrow> lower_char c = c"
  by (auto simp: plain_char_def is_digit_def lower_char_def Let_def)

lemma digit_plain: "is_digit c \<Longrightarrow> plain_char c"
  by (simp add: plain_char_def)

lemma lower_char_space: "is_space (lower_char c) = is_space c"
proof (cases "65 \<le> (of_char c :: nat) \<and> (of_char c :: nat) \<le> 90")
  case True
  then have "(of_char (lower_char c) :: nat) = of_char c + 32"
    by (simp add: lower_char_def Let_def)
  with True show ?thesis by (simp add: is_space_def Let_def)
next
  case False
  then show ?thesis by (auto simp: lower_char_def Let_def)
qed

lemma strip_core:
  assumes "list_all is_space ws1" "list_all is_space ws2" "core \<noteq> []"
    "\<not> is_space (hd core)" "\<not> is_space (last core)"
  shows "strip (ws1 @ core @ ws2) = core"
proof -
  have a: "dropWhile is_space (ws1 @ core @ ws2) = core @ ws2"
  proof -
    have "dropWhile is_space (ws1 @ core @ ws2) = dropWhile is_space (core @ ws2)"
      using assms(1) by (intro dropWhile_append2) (simp add: list_all_iff)
    also have "\<dots> = core @ ws2" using assms(3,4) by (cases core) simp_all
    finally show ?thesis .
  qed
  have b: "dropWhile is_space (rev (core @ ws2)) = rev core"
  proof -
    have "dropWhile is_space (rev ws2 @ rev core) = dropWhile is_space (rev core)"
      using assms(2) by (intro dropWhile_append2) (simp add: list_all_iff)
    also have "\<dots> = rev core"
      using assms(3,5) by (cases core rule: rev_cases) simp_all
    finally show ?thesis by simp
  qed
  show ?thesis unfolding strip_def a b by simp
qed

lemma strip_plain:
  assumes "list_all plain_char s"
  shows "strip s = s"
proof (cases "s = []")
  case True
  then show ?thesis by (simp add: strip_def)
next
  case False
  have "\<not> is_space (hd s)" "\<not> is_space (last s)"
    using assms False by (auto simp: list_all_iff plain_not_space)
  from strip_core[of "[]" "[]" s, OF _ _ False this] show ?thesis by simp
qed

lemma lower_plain: "list_all plain_char s \<Longrightarrow> lower s = s"
  by (induction s) (simp_all add: lower_def plain_lower)

lemma lower_append: "lower (a @ b) = lower a @ lower b"
  by (simp add: lower_def)

lemma split_sign_plain: "list_all plain_char s \<Longrightarrow> split_sign s = (False, s)"
  by (cases s) (auto simp: split_sign_def dest: plain_not_sign)

lemma unit_names:
  "lu \<in> fst ` set units \<longleftrightarrow>
     lu = ''k'' \<or> lu = ''ki'' \<or> lu = ''m'' \<or> lu = ''mi'' \<or> lu = ''g'' \<or> lu = ''gi'' \<or>
     lu = ''t'' \<or> lu = ''ti''"
  by (auto simp: units_def)

lemma scan_units_each:
  "scan_units (num @ ''k'') sorted_units =
     scaled (py_float num) (1024 ^ unit_power ''k'')"
  "scan_units (num @ ''ki'') sorted_units =
     scaled (py_float num) (1024 ^ unit_power ''ki'')"
  "scan_units (num @ ''m'') sorted_units =
     scaled (py_float num) (1024 ^ unit_power ''m'')"
  "scan_units (num @ ''mi'') sorted_units =
     scaled (py_float num) (1024 ^ unit_power ''mi'')"
  "scan_units (num @ ''g'') sorted_units =
     scaled (py_float num) (1024 ^ unit_power ''g'')"
  "scan_units (num @ ''gi'') sorted_units =
     scaled (py_float num) (1024 ^ unit_power ''gi'')"
  "scan_units (num @ ''t'') sorted_units =
     scaled (py_float num) (1024 ^ unit_power ''t'')"
  "scan_units (num @ ''ti'') sorted_units =
     scaled (py_float num) (1024 ^ unit_power ''ti'')"
  by (simp_all add: sorted_units_eq endswith_def suffix_to_prefix unit_power_def)

lemma scan_units_suffix:
  assumes "lu \<in> fst ` set units"
  shows "scan_units (num @ lu) sorted_units =
     scaled (py_float num) (1024 ^ unit_power lu)"
proof -
  from assms consider "lu = ''k''" | "lu = ''ki''" | "lu = ''m''" | "lu = ''mi''"
    | "lu = ''g''" | "lu = ''gi''" | "lu = ''t''" | "lu = ''ti''"
    unfolding unit_names by blast
  then show ?thesis
  proof cases
    case 1 then show ?thesis by (simp only: scan_units_each)
  next
    case 2 then show ?thesis by (simp only: scan_units_each)
  next
    case 3 then show ?thesis by (simp only: scan_units_each)
  next
    case 4 then show ?thesis by (simp only: scan_units_each)
  next
    case 5 then show ?thesis by (simp only: scan_units_each)
  next
    case 6 then show ?thesis by (simp only: scan_units_each)
  next
    case 7 then show ?thesis by (simp only: scan_units_each)
  next
    case 8 then show ?thesis by (simp only: scan_units_each)
  qed
qed

subsection \<open>The conversions \<^verbatim>\<open>float(...)\<close> and \<^verbatim>\<open>int(...)\<close> on plain numbers\<close>

lemma digits_value_acc:
  "0 \<le> a \<Longrightarrow> 0 \<le> foldl (\<lambda>a ch. if is_digit ch then 10 * a + digit_of ch else a) a s"
proof (induction s arbitrary: a)
  case Nil
  then show ?case by simp
next
  case (Cons c s)
  have "0 \<le> digit_of c" if "is_digit c"
    using that by (simp add: is_digit_def digit_of_def Let_def)
  with Cons.prems have "0 \<le> (if is_digit c then 10 * a + digit_of c else a)" by simp
  from Cons.IH[OF this] show ?case by simp
qed

lemma digits_value_nonneg: "0 \<le> digits_value s"
  unfolding digits_value_def by (rule digits_value_acc) simp

lemma takeWhile_all: "list_all P s \<Longrightarrow> takeWhile P s = s \<and> dropWhile P s = []"
  by (induction s) simp_all

lemma decimal_value_plain:
  assumes "list_all plain_char num"
  shows "decimal_value num =
     mantissa_value (takeWhile (\<lambda>c. c \<noteq> CHR ''.'') num) (dropWhile (\<lambda>c. c \<noteq> CHR ''.'') num)"
proof -
  have "list_all (\<lambda>c. c \<noteq> CHR ''e'' \<and> c \<noteq> CHR ''E'') num"
    using assms by (auto simp: list_all_iff dest: plain_not_sign)
  from takeWhile_all[OF this]
  have tw: "takeWhile (\<lambda>c. c \<noteq> CHR ''e'' \<and> c \<noteq> CHR ''E'') num = num"
    "dropWhile (\<lambda>c. c \<noteq> CHR ''e'' \<and> c \<noteq> CHR ''E'') num = []" by blast+
  show ?thesis unfolding decimal_value_def Let_def tw by (simp split: option.splits)
qed

lemma mantissa_value_nonneg: "mantissa_value ip fr = Some q \<Longrightarrow> 0 \<le> q"
  by (auto simp: mantissa_value_def digits_value_nonneg split: list.splits if_splits)

lemma decimal_value_nonneg:
  "list_all plain_char num \<Longrightarrow> decimal_value num = Some q \<Longrightarrow> 0 \<le> q"
  by (simp add: decimal_value_plain mantissa_value_nonneg)

lemma decimal_value_nonempty: "decimal_value num = Some q \<Longrightarrow> num \<noteq> []"
  by (auto simp: decimal_value_def mantissa_value_def Let_def)

lemma plain_not_name:
  assumes "list_all plain_char s"
  shows "s \<noteq> ''inf''" "s \<noteq> ''infinity''" "s \<noteq> ''nan''"
  using assms by (auto simp: plain_char_def is_digit_def)

lemma py_float_plain:
  assumes "list_all plain_char num" "decimal_value num = Some q"
  shows "py_float num = Inr (round_double q)"
  using assms plain_not_name[OF assms(1)]
  by (simp add: py_float_def strip_plain split_sign_plain lower_plain)

lemma kibi_power: "(1024 :: rat) ^ p = 2 ^ (10 * p)"
proof -
  have "(1024 :: rat) = 2 ^ 10" by simp
  then show ?thesis by (simp only: power_mult)
qed

lemma float_times_representable:
  assumes "0 \<le> q" "representable q" "q * 1024 ^ p < overflow_bound"
  shows "scaled (Inr (round_double q)) (1024 ^ p) = Inr \<lfloor>q * 1024 ^ p\<rfloor>"
proof -
  have lt: "q * 2 ^ (10 * p) < overflow_bound" using assms(3) by (simp only: kibi_power)
  have "representable (q * 2 ^ (10 * p))" by (rule representable_scale[OF assms(1,2) lt])
  then have "representable (q * 1024 ^ p)" by (simp only: kibi_power)
  then have a: "round_double (q * 1024 ^ p) = Finite (q * 1024 ^ p)" by (simp add: representable_def)
  have b: "round_double q = Finite q" using assms(2) by (simp add: representable_def)
  have c: "0 \<le> q * 1024 ^ p" using assms(1) by simp
  show ?thesis using a c by (simp add: b scaled_def float_times_def int_of_float_def)
qed

lemma unit_not_blank:
  assumes "lower u \<in> fst ` set units"
  shows "u \<noteq> []" "\<not> is_space (last u)" "\<not> is_space (hd u)"
proof -
  from assms show ne: "u \<noteq> []" by (auto simp: unit_names lower_def)
  have l: "\<not> is_space c" if "c \<in> set (lower u)" for c
    using assms that by (auto simp: unit_names is_space_def Let_def)
  have "\<not> is_space (lower_char c)" if "c \<in> set u" for c
    using l that by (simp add: lower_def)
  then have "\<not> is_space c" if "c \<in> set u" for c
    using that by (simp add: lower_char_space)
  with ne show "\<not> is_space (last u)" "\<not> is_space (hd u)" by simp_all
qed

lemma parse_size_with_unit:
  assumes ws: "list_all is_space ws1" "list_all is_space ws2"
    and num: "list_all plain_char num" "decimal_value num = Some q"
    and u: "lower u \<in> fst ` set units"
  shows "parse_size (ws1 @ num @ u @ ws2) = scaled (Inr (round_double q)) (1024 ^ unit_power (lower u))"
proof -
  have ne: "num \<noteq> []" using num(2) by (rule decimal_value_nonempty)
  note ub = unit_not_blank[OF u]
  have "\<not> is_space (hd (num @ u))" using ne num(1) by (cases num) (auto simp: plain_not_space)
  moreover have "\<not> is_space (last (num @ u))" using ub by simp
  ultimately have "strip (ws1 @ (num @ u) @ ws2) = num @ u"
    using ws ne by (intro strip_core) simp_all
  then have "lower (strip (ws1 @ num @ u @ ws2)) = num @ lower u"
    using num(1) by (simp add: lower_append lower_plain)
  then show ?thesis
    by (simp add: parse_size_def scan_units_suffix[OF u] py_float_plain[OF num])
qed

lemma digitpart_digits: "s \<noteq> [] \<Longrightarrow> list_all is_digit s \<Longrightarrow> digitpart s"
proof (induction s rule: digitpart.induct)
  case 1
  then show ?case by simp
next
  case (2 c)
  then show ?case by simp
next
  case (3 c d r)
  from 3(4) have "is_digit d" by simp
  then have "d \<noteq> CHR ''_''" by (auto simp: is_digit_def)
  with 3 show ?case by simp
qed

lemma digitpart_chars: "digitpart s \<Longrightarrow> c \<in> set s \<Longrightarrow> is_digit c \<or> c = CHR ''_''"
  by (induction s rule: digitpart.induct) (auto split: if_splits)

lemma digits_value_snoc:
  "digits_value (s @ [c]) = (if is_digit c then 10 * digits_value s + digit_of c else digits_value s)"
  by (simp add: digits_value_def)

lemma count_digits_all: "list_all is_digit s \<Longrightarrow> count_digits s = length s"
  by (induction s) (simp_all add: count_digits_def)

lemma digits_plain: "list_all is_digit s \<Longrightarrow> list_all plain_char s"
  by (induction s) (simp_all add: plain_char_def)

lemma no_dot_digits:
  "list_all is_digit s \<Longrightarrow> takeWhile (\<lambda>c. c \<noteq> CHR ''.'') s = s \<and> dropWhile (\<lambda>c. c \<noteq> CHR ''.'') s = []"
  by (intro takeWhile_all) (auto simp: list_all_iff is_digit_def)

lemma decimal_value_digits:
  assumes "ds \<noteq> []" "list_all is_digit ds"
  shows "decimal_value ds = Some (of_int (digits_value ds))"
proof -
  from no_dot_digits[OF assms(2)]
  have tw: "takeWhile (\<lambda>c. c \<noteq> CHR ''.'') ds = ds" "dropWhile (\<lambda>c. c \<noteq> CHR ''.'') ds = []"
    by blast+
  show ?thesis
    unfolding decimal_value_plain[OF digits_plain[OF assms(2)]] tw
    by (simp add: mantissa_value_def digitpart_digits[OF assms])
qed

lemma py_int_digits:
  assumes "ds \<noteq> []" "list_all is_digit ds" "length ds \<le> 4300"
  shows "py_int ds = Inr (digits_value ds)"
  using assms digits_plain[OF assms(2)]
  by (simp add: py_int_def strip_plain split_sign_plain digitpart_digits count_digits_all)

lemma py_int_fraction:
  assumes "list_all is_digit ds" "list_all is_digit fs"
  shows "py_int (ds @ CHR ''.'' # fs) = Inl ValueError"
proof -
  have p: "list_all plain_char (ds @ CHR ''.'' # fs)"
    using assms by (simp add: digits_plain) (simp add: plain_char_def)
  have "\<not> digitpart (ds @ CHR ''.'' # fs)"
  proof
    assume "digitpart (ds @ CHR ''.'' # fs)"
    from digitpart_chars[OF this, of "CHR ''.''"] show False by (simp add: is_digit_def)
  qed
  then show ?thesis by (simp add: py_int_def strip_plain[OF p] split_sign_plain[OF p])
qed

lemma plain_not_unit_letter:
  assumes "plain_char c"
  shows "c \<noteq> CHR ''i''" "c \<noteq> CHR ''k''" "c \<noteq> CHR ''m''" "c \<noteq> CHR ''g''" "c \<noteq> CHR ''t''"
  using assms by (auto simp: plain_char_def is_digit_def)

lemma scan_units_plain:
  assumes "s \<noteq> []" "plain_char (last s)"
  shows "scan_units s sorted_units = py_int s"
proof -
  from assms(1) obtain r c where s: "s = r @ [c]" by (cases s rule: rev_cases) auto
  with assms(2) have "plain_char c" by simp
  note n = plain_not_unit_letter[OF this]
  show ?thesis
    unfolding s sorted_units_eq using n
    by (simp add: endswith_def suffix_to_prefix)
qed

lemma unit_power_le: "unit_power u \<le> 4"
  by (simp add: unit_power_def)

lemma below_overflow:
  assumes "0 \<le> n" "n < 2 ^ 53"
  shows "(of_int n :: rat) * 1024 ^ unit_power u < overflow_bound"
proof -
  have "(1024 :: rat) ^ unit_power u \<le> 1024 ^ 4"
    by (intro power_increasing unit_power_le) simp
  moreover have "(0 :: rat) \<le> of_int n" using assms(1) by simp
  ultimately have "(of_int n :: rat) * 1024 ^ unit_power u \<le> of_int n * 1024 ^ 4"
    by (rule mult_left_mono)
  also have "(of_int n :: rat) < of_int (2 ^ 53)" using assms(2) by (simp only: of_int_less_iff)
  then have "(of_int n :: rat) * 1024 ^ 4 < 2 ^ 53 * 1024 ^ 4" by simp
  also have "(2 :: rat) ^ 53 * 1024 ^ 4 = 2 powi 93" by simp
  also have "\<dots> \<le> overflow_bound" unfolding overflow_bound_def
    by (intro power_int_increasing) simp_all
  finally show ?thesis .
qed

subsection \<open>A number with a unit suffix\<close>

text \<open>
  C8, with the numbers restricted to those the conversion through \<^verbatim>\<open>float\<close> keeps exact.
  Take a string made of whitespace, an unsigned decimal \<open>num\<close> without exponent (digits and
  a point) of value \<open>q\<close>, a unit \<open>u\<close> whose lower-case form is one of
  \<^verbatim>\<open>k, ki, m, mi, g, gi, t, ti\<close>, and whitespace.  If \<open>q\<close> is exactly a binary64 value and
  \<open>q \<times> 1024\<^sup>p\<close> is below \<open>2\<^sup>1\<^sup>0\<^sup>2\<^sup>4\<close>, where \<open>p\<close> is the power of the unit, then
  \<^verbatim>\<open>parse_size\<close> returns \<open>\<lfloor>q \<times> 1024\<^sup>p\<rfloor>\<close>.  In particular, when the number is a string of
  digits of value \<open>n < 2\<^sup>5\<^sup>3\<close>, \<^verbatim>\<open>parse_size\<close> returns exactly \<open>n \<times> 1024\<^sup>p\<close>.
\<close>

theorem parse_size_unit:
  "(list_all is_space ws1 \<and> list_all is_space ws2 \<and> list_all plain_char num \<and>
    decimal_value num = Some q \<and> lower u \<in> fst ` set units \<and>
    representable q \<and> q * 1024 ^ unit_power (lower u) < overflow_bound \<longrightarrow>
      parse_size (ws1 @ num @ u @ ws2) = Inr \<lfloor>q * 1024 ^ unit_power (lower u)\<rfloor>) \<and>
   (list_all is_space ws1 \<and> list_all is_space ws2 \<and> ds \<noteq> [] \<and> list_all is_digit ds \<and>
    digits_value ds < 2 ^ 53 \<and> lower u \<in> fst ` set units \<longrightarrow>
      parse_size (ws1 @ ds @ u @ ws2) = Inr (digits_value ds * 1024 ^ unit_power (lower u)))"
proof (intro conjI impI)
  assume a: "list_all is_space ws1 \<and> list_all is_space ws2 \<and> list_all plain_char num \<and>
    decimal_value num = Some q \<and> lower u \<in> fst ` set units \<and>
    representable q \<and> q * 1024 ^ unit_power (lower u) < overflow_bound"
  then have q: "0 \<le> q" using decimal_value_nonneg by blast
  from a have "parse_size (ws1 @ num @ u @ ws2) =
      scaled (Inr (round_double q)) (1024 ^ unit_power (lower u))"
    by (intro parse_size_with_unit) blast+
  also from a q have "\<dots> = Inr \<lfloor>q * 1024 ^ unit_power (lower u)\<rfloor>"
    by (intro float_times_representable) blast+
  finally show "parse_size (ws1 @ num @ u @ ws2) = Inr \<lfloor>q * 1024 ^ unit_power (lower u)\<rfloor>" .
next
  assume a: "list_all is_space ws1 \<and> list_all is_space ws2 \<and> ds \<noteq> [] \<and> list_all is_digit ds \<and>
    digits_value ds < 2 ^ 53 \<and> lower u \<in> fst ` set units"
  let ?n = "digits_value ds"
  let ?p = "unit_power (lower u)"
  have n: "0 \<le> ?n" by (rule digits_value_nonneg)
  from a have dv: "decimal_value ds = Some (of_int ?n)" by (intro decimal_value_digits) blast+
  from a n have r: "representable (of_int ?n)" by (intro representable_int) blast+
  from a n have b: "(of_int ?n :: rat) * 1024 ^ ?p < overflow_bound" by (intro below_overflow) blast+
  from a have "parse_size (ws1 @ ds @ u @ ws2) = scaled (Inr (round_double (of_int ?n))) (1024 ^ ?p)"
    by (intro parse_size_with_unit dv digits_plain) blast+
  also have "\<dots> = Inr \<lfloor>(of_int ?n :: rat) * 1024 ^ ?p\<rfloor>"
    using r b n by (intro float_times_representable) simp_all
  also have "(of_int ?n :: rat) * 1024 ^ ?p = of_int (?n * 1024 ^ ?p)" by simp
  also have "\<lfloor>(of_int (?n * 1024 ^ ?p) :: rat)\<rfloor> = ?n * 1024 ^ ?p" by (rule floor_of_int)
  finally show "parse_size (ws1 @ ds @ u @ ws2) = Inr (?n * 1024 ^ ?p)" .
qed

theorem parse_size_unit_witness:
  "parse_size '' 1.5Ki '' = Inr 1536 \<and> parse_size ''128Mi'' = Inr 134217728"
proof -
  have a: "list_all is_space '' '' \<and> list_all is_space '' '' \<and> list_all plain_char ''1.5'' \<and>
    decimal_value ''1.5'' = Some (3 / 2) \<and> lower ''Ki'' \<in> fst ` set units \<and>
    representable (3 / 2) \<and> 3 / 2 * 1024 ^ unit_power (lower ''Ki'') < overflow_bound"
    by code_simp
  have v: "\<lfloor>(3 / 2 :: rat) * 1024 ^ unit_power (lower ''Ki'')\<rfloor> = 1536" by code_simp
  have b: "list_all is_space [] \<and> list_all is_space [] \<and> ''128'' \<noteq> [] \<and>
    list_all is_digit ''128'' \<and> digits_value ''128'' < 2 ^ 53 \<and> lower ''Mi'' \<in> fst ` set units"
    by code_simp
  have w: "digits_value ''128'' * 1024 ^ unit_power (lower ''Mi'') = 134217728" by code_simp
  have "parse_size ('' '' @ ''1.5'' @ ''Ki'' @ '' '') = Inr 1536"
    using parse_size_unit[where ?ws1.0 = "'' ''" and ?ws2.0 = "'' ''" and num = "''1.5''"
        and q = "3 / 2" and u = "''Ki''", THEN conjunct1, THEN mp, OF a]
    by (simp only: v)
  moreover have "parse_size ([] @ ''128'' @ ''Mi'' @ []) = Inr 134217728"
    using parse_size_unit[where ?ws1.0 = "[]" and ?ws2.0 = "[]" and ds = "''128''"
        and u = "''Mi''", THEN conjunct2, THEN mp, OF b]
    by (simp only: w)
  ultimately show ?thesis by simp
qed

text \<open>
  C8 as worded, for every decimal number, fails: the number goes through \<^verbatim>\<open>float\<close>, which
  rounds it to 53 significant bits.  \<open>9007199254740993 = 2\<^sup>5\<^sup>3 + 1\<close> is rounded to \<open>2\<^sup>5\<^sup>3\<close>, and
  the result is \<open>2\<^sup>6\<^sup>3\<close>, not \<open>9007199254740993 \<times> 1024\<close>.
\<close>

theorem parse_size_float_rounding:
  "parse_size ''9007199254740993k'' = Inr 9223372036854775808 \<and>
   parse_size ''9007199254740993k'' \<noteq> Inr (9007199254740993 * 1024 ^ unit_power ''k'')"
proof -
  have e: "parse_size ''9007199254740993k'' = Inr 9223372036854775808" by code_simp
  show ?thesis unfolding e by (simp add: unit_power_def)
qed

subsection \<open>A number without a unit suffix\<close>

text \<open>
  C9, for the numbers \<^verbatim>\<open>int(...)\<close> accepts.  A non-empty string of at most 4300 digits,
  with optional whitespace around it, parses to the number it denotes.  A number with a
  fractional part, digits, a point, digits, and no unit suffix does not parse:
  \<^verbatim>\<open>parse_size\<close> raises \<^verbatim>\<open>ValueError\<close>.
\<close>

theorem parse_size_bare:
  "(list_all is_space ws1 \<and> list_all is_space ws2 \<and> ds \<noteq> [] \<and> list_all is_digit ds \<and>
    length ds \<le> 4300 \<longrightarrow> parse_size (ws1 @ ds @ ws2) = Inr (digits_value ds)) \<and>
   (list_all is_digit ds \<and> list_all is_digit fs \<longrightarrow>
      parse_size (ds @ CHR ''.'' # fs) = Inl ValueError)"
proof (intro conjI impI)
  assume a: "list_all is_space ws1 \<and> list_all is_space ws2 \<and> ds \<noteq> [] \<and> list_all is_digit ds \<and>
    length ds \<le> 4300"
  then have p: "list_all plain_char ds" and ne: "ds \<noteq> []" by (simp_all add: digits_plain)
  then have e: "plain_char (hd ds)" "plain_char (last ds)" by (simp_all add: list_all_iff)
  then have "strip (ws1 @ ds @ ws2) = ds"
    using a by (intro strip_core) (simp_all add: plain_not_space)
  then have "parse_size (ws1 @ ds @ ws2) = scan_units ds sorted_units"
    by (simp add: parse_size_def lower_plain[OF p])
  also have "\<dots> = py_int ds" by (rule scan_units_plain[OF ne e(2)])
  also have "\<dots> = Inr (digits_value ds)" using a by (intro py_int_digits) blast+
  finally show "parse_size (ws1 @ ds @ ws2) = Inr (digits_value ds)" .
next
  assume a: "list_all is_digit ds \<and> list_all is_digit fs"
  let ?s = "ds @ CHR ''.'' # fs"
  have p: "list_all plain_char ?s"
    using a by (simp add: digits_plain) (simp add: plain_char_def)
  have "last ?s \<in> set ?s" by (rule last_in_set) simp
  with p have l: "plain_char (last ?s)" unfolding list_all_iff by blast
  have "parse_size ?s = scan_units ?s sorted_units"
    by (simp only: parse_size_def strip_plain[OF p] lower_plain[OF p])
  also have "\<dots> = py_int ?s" by (rule scan_units_plain[OF _ l]) simp
  also have "\<dots> = Inl ValueError" using a by (intro py_int_fraction) blast+
  finally show "parse_size ?s = Inl ValueError" .
qed

theorem parse_size_bare_witness:
  "parse_size '' 4096 '' = Inr 4096 \<and> parse_size ''0.25'' = Inl ValueError"
proof -
  have a: "list_all is_space '' '' \<and> list_all is_space '' '' \<and> ''4096'' \<noteq> [] \<and>
    list_all is_digit ''4096'' \<and> length ''4096'' \<le> 4300"
    by code_simp
  have v: "digits_value ''4096'' = 4096" by code_simp
  have b: "list_all is_digit ''0'' \<and> list_all is_digit ''25''" by code_simp
  have "parse_size ('' '' @ ''4096'' @ '' '') = Inr 4096"
    using parse_size_bare[where ?ws1.0 = "'' ''" and ?ws2.0 = "'' ''" and ds = "''4096''",
        THEN conjunct1, THEN mp, OF a]
    by (simp only: v)
  moreover have "parse_size (''0'' @ CHR ''.'' # ''25'') = Inl ValueError"
    using parse_size_bare[where ds = "''0''" and fs = "''25''", THEN conjunct2, THEN mp, OF b] .
  ultimately show ?thesis by simp
qed

text \<open>
  C9 as worded fails on its own example: \<^verbatim>\<open>parse_size\<close> of the string \<^verbatim>\<open>1.5\<close> reaches \<^verbatim>\<open>int\<close> of it, which
  raises \<^verbatim>\<open>ValueError\<close>.
\<close>

theorem parse_size_fraction_raises:
  "parse_size ''1.5'' = Inl ValueError"
  by code_simp

end
